theory Spec2Isabelle
  imports Complex_Main "HOL-Library.Word" "HOL-Library.AList"
begin

unbundle bit_operations_syntax

section \<open>Host values\<close>

text \<open>
  A JavaScript string is a sequence of 16-bit code units. \<open>js\<close> embeds an ASCII literal
  of the source (\<open>"undefined"\<close>, \<open>"Unknown JS exception"\<close>) as such a sequence.
\<close>

type_synonym jsstring = "16 word list"

definition js :: "string \<Rightarrow> jsstring" where
  "js s = map (\<lambda>c. of_nat (of_char c)) s"

text \<open>
  A Number is a finite double (its exact value, as a real; \<open>Fin 0\<close> is \<open>+0\<close>), the
  negative zero, NaN or an infinity. No operation modelled here does floating-point
  arithmetic: numbers are only truncated to 32 bits and compared.
\<close>

datatype jsnum = Fin real | NegZero | NaN | PosInf | NegInf

text \<open>
  Host values. Objects and functions have an identity (a reference); two of them are
  the same value exactly when the references are equal. Symbols likewise.
\<close>

datatype jsval =
    JNull
  | JUndefined
  | JBool bool
  | JNumber jsnum
  | JBigInt int
  | JString jsstring
  | JSymbol nat
  | JObject nat
  | JFunction nat

text \<open>What the source can throw: an engine error, \<open>new Error(msg)\<close>, or a host value.\<close>

datatype js_exn = TypeError | RangeError | ErrorMsg string | Thrown jsval

text \<open>
  The strict equality \<open>===\<close> of two host values: NaN differs from itself, the two
  zeros are equal, everything else is compared by value or by identity.
\<close>

fun num_equals :: "jsnum \<Rightarrow> jsnum \<Rightarrow> bool" where
  "num_equals NaN _ = False"
| "num_equals _ NaN = False"
| "num_equals NegZero (Fin r) = (r = 0)"
| "num_equals (Fin r) NegZero = (r = 0)"
| "num_equals a b = (a = b)"

definition strictly_equals :: "jsval \<Rightarrow> jsval \<Rightarrow> bool" where
  "strictly_equals a b =
     (case (a, b) of (JNumber x, JNumber y) \<Rightarrow> num_equals x y | _ \<Rightarrow> a = b)"

text \<open>
  A \<open>Map\<close> compares keys with SameValueZero and stores \<open>-0\<close> under the key \<open>+0\<close>:
  \<open>sv0key\<close> is the key a value is filed under.
\<close>

definition sv0key :: "jsval \<Rightarrow> jsval" where
  "sv0key v = (if v = JNumber NegZero then JNumber (Fin 0) else v)"

fun num_truthy :: "jsnum \<Rightarrow> bool" where
  "num_truthy (Fin r) = (r \<noteq> 0)"
| "num_truthy NegZero = False"
| "num_truthy NaN = False"
| "num_truthy PosInf = True"
| "num_truthy NegInf = True"

primrec truthy :: "jsval \<Rightarrow> bool" where
  "truthy JNull = False"
| "truthy JUndefined = False"
| "truthy (JBool b) = b"
| "truthy (JNumber x) = num_truthy x"
| "truthy (JBigInt i) = (i \<noteq> 0)"
| "truthy (JString s) = (s \<noteq> [])"
| "truthy (JSymbol _) = True"
| "truthy (JObject _) = True"
| "truthy (JFunction _) = True"

primrec typeof :: "jsval \<Rightarrow> string" where
  "typeof JNull = ''object''"
| "typeof JUndefined = ''undefined''"
| "typeof (JBool _) = ''boolean''"
| "typeof (JNumber _) = ''number''"
| "typeof (JBigInt _) = ''bigint''"
| "typeof (JString _) = ''string''"
| "typeof (JSymbol _) = ''symbol''"
| "typeof (JObject _) = ''object''"
| "typeof (JFunction _) = ''function''"

section \<open>The handle table\<close>

text \<open>
  \<open>class HandleTable\<close>: \<open>_h2e\<close> maps a handle to its entry \<open>{ value, refs }\<close>,
  \<open>_v2h\<close> maps a value back to its handle, \<open>_next\<close> is the allocation counter. A
  \<open>Map\<close> keeps insertion order: it is an association list, \<open>set\<close> is
  \<open>AList.update\<close> and \<open>delete\<close> is \<open>AList.delete\<close>. Handles and reference counts
  are Numbers holding integers.
\<close>

record entry =
  val :: jsval
  refs :: int

record HandleTable =
  h2e :: "(int \<times> entry) list"
  v2h :: "(jsval \<times> int) list"
  next_handle :: int

definition new_HandleTable :: HandleTable where
  "new_HandleTable = \<lparr>h2e = [], v2h = [], next_handle = 0\<rparr>"

definition newEntry :: "HandleTable \<Rightarrow> jsval \<Rightarrow> int \<times> HandleTable" where
  "newEntry t v =
     (let h = next_handle t in
      (h, \<lparr>h2e = AList.update h \<lparr>val = v, refs = 1\<rparr> (h2e t),
          v2h = AList.update (sv0key v) h (v2h t),
          next_handle = h + 1\<rparr>))"

text \<open>
  \<open>add\<close>: \<open>++this._h2e.get(h).refs\<close> raises a TypeError when the reverse index names
  a handle that has no entry.
\<close>

definition add :: "HandleTable \<Rightarrow> jsval \<Rightarrow> js_exn + (int \<times> HandleTable)" where
  "add t v =
     (case map_of (v2h t) (sv0key v) of
        Some h \<Rightarrow>
          (case map_of (h2e t) h of
             None \<Rightarrow> Inl TypeError
           | Some e \<Rightarrow> Inr (h, t\<lparr>h2e := AList.update h (e\<lparr>refs := refs e + 1\<rparr>) (h2e t)\<rparr>))
      | None \<Rightarrow> Inr (newEntry t v))"

definition decRef :: "HandleTable \<Rightarrow> int \<Rightarrow> bool \<times> HandleTable" where
  "decRef t h =
     (case map_of (h2e t) h of
        None \<Rightarrow> (False, t)
      | Some e \<Rightarrow>
          if refs e - 1 = 0
          then (True, t\<lparr>h2e := AList.delete h (h2e t),
                        v2h := AList.delete (sv0key (val e)) (v2h t)\<rparr>)
          else (True, t\<lparr>h2e := AList.update h (e\<lparr>refs := refs e - 1\<rparr>) (h2e t)\<rparr>))"

definition incRef :: "HandleTable \<Rightarrow> int \<Rightarrow> HandleTable" where
  "incRef t h =
     (case map_of (h2e t) h of
        None \<Rightarrow> t
      | Some e \<Rightarrow> t\<lparr>h2e := AList.update h (e\<lparr>refs := refs e + 1\<rparr>) (h2e t)\<rparr>)"

text \<open>\<open>get\<close>: \<open>this._h2e.get(h)?.value\<close>, which is \<open>undefined\<close> without an entry.\<close>

definition get :: "HandleTable \<Rightarrow> int \<Rightarrow> jsval" where
  "get t h = (case map_of (h2e t) h of None \<Rightarrow> JUndefined | Some e \<Rightarrow> val e)"

definition has :: "HandleTable \<Rightarrow> jsval \<Rightarrow> bool" where
  "has t v = (map_of (v2h t) (sv0key v) \<noteq> None)"

definition refs_of :: "HandleTable \<Rightarrow> int \<Rightarrow> int option" where
  "refs_of t h = map_option refs (map_of (h2e t) h)"

text \<open>Sequencing of calls that can throw.\<close>

definition thenE :: "'e + 'a \<Rightarrow> ('a \<Rightarrow> 'e + 'b) \<Rightarrow> 'e + 'b" where
  "thenE r f = (case r of Inl e \<Rightarrow> Inl e | Inr a \<Rightarrow> f a)"

text \<open>
  \<open>emlite_init_handle_table\<close>: a new table, and the seven singletons added in order.
  \<open>globalThis\<close> and \<open>console\<close> are two objects of the host, the marker is a fresh
  symbol.
\<close>

definition globalThis :: jsval where "globalThis = JObject 0"
definition console :: jsval where "console = JObject 1"
definition EMLITE_RESERVED :: jsval where "EMLITE_RESERVED = JSymbol 0"

definition singletons :: "jsval list" where
  "singletons = [JNull, JUndefined, JBool False, JBool True, globalThis, console, EMLITE_RESERVED]"

definition add_all :: "HandleTable \<Rightarrow> jsval list \<Rightarrow> js_exn + HandleTable" where
  "add_all t vs = foldl (\<lambda>r v. thenE r (\<lambda>t'. map_sum id snd (add t' v))) (Inr t) vs"

definition emlite_init_handle_table :: "js_exn + HandleTable" where
  "emlite_init_handle_table = add_all new_HandleTable singletons"

text \<open>The table right after initialisation, written out.\<close>

definition EMLITE_VALMAP0 :: HandleTable where
  "EMLITE_VALMAP0 =
     \<lparr>h2e = [(0, \<lparr>val = JNull, refs = 1\<rparr>), (1, \<lparr>val = JUndefined, refs = 1\<rparr>),
             (2, \<lparr>val = JBool False, refs = 1\<rparr>), (3, \<lparr>val = JBool True, refs = 1\<rparr>),
             (4, \<lparr>val = globalThis, refs = 1\<rparr>), (5, \<lparr>val = console, refs = 1\<rparr>),
             (6, \<lparr>val = EMLITE_RESERVED, refs = 1\<rparr>)],
      v2h = [(JNull, 0), (JUndefined, 1), (JBool False, 2), (JBool True, 3),
             (globalThis, 4), (console, 5), (EMLITE_RESERVED, 6)],
      next_handle = 7\<rparr>"

section \<open>Reference counting at the bridge\<close>

definition emlite_val_inc_ref :: "HandleTable \<Rightarrow> int \<Rightarrow> HandleTable" where
  "emlite_val_inc_ref t h = incRef t h"

definition emlite_val_dec_ref :: "HandleTable \<Rightarrow> int \<Rightarrow> HandleTable" where
  "emlite_val_dec_ref t h = (if h > 6 then snd (decRef t h) else t)"

section \<open>What the engine decides\<close>

text \<open>
  The coercions and reflective operations of the JavaScript engine whose result depends
  on the host's objects and on code the host supplies. They are parameters of the model;
  \<open>Inl\<close> is a throw. \<open>instanceof H v C\<close> is \<open>v instanceof C\<close> for the global
  constructor \<open>C\<close>; it walks the prototype chain of \<open>v\<close> and throws when a step of
  the walk throws (a revoked \<open>Proxy\<close>, a \<open>getPrototypeOf\<close> trap that throws).
  \<open>ToString H v\<close> is \<open>String(v)\<close>, \<open>HasProperty H v k\<close> is \<open>k in v\<close>,
  \<open>GetProperty H v k\<close> is \<open>v.k\<close>, and \<open>array_elements H v\<close> is the elements of
  \<open>v\<close> when \<open>v\<close> is an array.
\<close>

record host =
  StringToNumber :: "jsstring \<Rightarrow> jsnum"
  ObjectToNumber :: "jsval \<Rightarrow> js_exn + jsnum"
  instanceof :: "jsval \<Rightarrow> string \<Rightarrow> js_exn + bool"
  ToString :: "jsval \<Rightarrow> js_exn + jsstring"
  HasProperty :: "jsval \<Rightarrow> string \<Rightarrow> js_exn + bool"
  GetProperty :: "jsval \<Rightarrow> string \<Rightarrow> js_exn + jsval"
  array_elements :: "jsval \<Rightarrow> jsval list option"

text \<open>\<open>ToNumber\<close> of ECMAScript; a BigInt and a Symbol raise a TypeError.\<close>

definition ToNumber :: "host \<Rightarrow> jsval \<Rightarrow> js_exn + jsnum" where
  "ToNumber H v =
     (case v of
        JNull \<Rightarrow> Inr (Fin 0)
      | JUndefined \<Rightarrow> Inr NaN
      | JBool b \<Rightarrow> Inr (Fin (if b then 1 else 0))
      | JNumber x \<Rightarrow> Inr x
      | JBigInt _ \<Rightarrow> Inl TypeError
      | JString s \<Rightarrow> Inr (StringToNumber H s)
      | JSymbol _ \<Rightarrow> Inl TypeError
      | JObject _ \<Rightarrow> ObjectToNumber H v
      | JFunction _ \<Rightarrow> ObjectToNumber H v)"

text \<open>
  \<open>ToInt32\<close> and \<open>ToUint32\<close> of a Number: a non-finite number and a zero give 0, a
  finite one is truncated towards zero and reduced modulo \<open>2^32\<close>.
\<close>

definition js_truncate :: "real \<Rightarrow> int" where
  "js_truncate r = (if r < 0 then - \<lfloor>- r\<rfloor> else \<lfloor>r\<rfloor>)"

definition ToUint32 :: "jsnum \<Rightarrow> int" where
  "ToUint32 x = (case x of Fin r \<Rightarrow> js_truncate r mod 2 ^ 32 | _ \<Rightarrow> 0)"

definition ToInt32 :: "jsnum \<Rightarrow> int" where
  "ToInt32 x = (let m = ToUint32 x in if m \<ge> 2 ^ 31 then m - 2 ^ 32 else m)"

text \<open>\<open>BigInt.asUintN(32, i)\<close> and \<open>BigInt.asIntN(32, i)\<close>.\<close>

definition asUintN32 :: "int \<Rightarrow> int" where
  "asUintN32 i = i mod 2 ^ 32"

definition asIntN32 :: "int \<Rightarrow> int" where
  "asIntN32 i = (let m = i mod 2 ^ 32 in if m \<ge> 2 ^ 31 then m - 2 ^ 32 else m)"

section \<open>Numbers across the bridge\<close>

text \<open>
  \<open>emlite_val_make_int\<close> adds \<open>value | 0\<close>, \<open>emlite_val_make_uint\<close> adds
  \<open>value >>> 0\<close>; the argument is the Number the engine hands over.
\<close>

definition emlite_val_make_int :: "HandleTable \<Rightarrow> jsnum \<Rightarrow> js_exn + (int \<times> HandleTable)" where
  "emlite_val_make_int t v = add t (JNumber (Fin (real_of_int (ToInt32 v))))"

definition emlite_val_make_uint :: "HandleTable \<Rightarrow> jsnum \<Rightarrow> js_exn + (int \<times> HandleTable)" where
  "emlite_val_make_uint t v = add t (JNumber (Fin (real_of_int (ToUint32 v))))"

text \<open>
  \<open>emlite_val_make_biguint\<close>: the argument is the BigInt of the signed 64-bit wire
  value; \<open>1n << 64n\<close> is \<open>2^64\<close>.
\<close>

definition emlite_val_make_biguint :: "HandleTable \<Rightarrow> int \<Rightarrow> js_exn + (int \<times> HandleTable)" where
  "emlite_val_make_biguint t v =
     (let x = v; x = (if x < 0 then x + 2 ^ 64 else x) in add t (JBigInt x))"

definition emlite_val_get_value_int :: "host \<Rightarrow> HandleTable \<Rightarrow> int \<Rightarrow> js_exn + jsnum" where
  "emlite_val_get_value_int H t n =
     (let v = get t n in
      case v of
        JBigInt i \<Rightarrow> Inr (Fin (real_of_int (asIntN32 i)))
      | _ \<Rightarrow> thenE (ToNumber H v) (\<lambda>x. Inr (Fin (real_of_int (ToInt32 x)))))"

definition emlite_val_get_value_uint :: "host \<Rightarrow> HandleTable \<Rightarrow> int \<Rightarrow> js_exn + jsnum" where
  "emlite_val_get_value_uint H t n =
     (let v = get t n in
      case v of
        JBigInt i \<Rightarrow> Inr (Fin (real_of_int (asUintN32 i)))
      | _ \<Rightarrow> thenE (ToNumber H v) (\<lambda>x. Inr (Fin (real_of_int (ToUint32 x)))))"

definition emlite_val_get_value_bool :: "HandleTable \<Rightarrow> int \<Rightarrow> int" where
  "emlite_val_get_value_bool t h = (if truthy (get t h) then 1 else 0)"

definition emlite_val_not :: "HandleTable \<Rightarrow> int \<Rightarrow> bool" where
  "emlite_val_not t arg = (\<not> truthy (get t arg))"

text \<open>
  \<open>typeof obj === "string" || obj instanceof String\<close> and its like: the right operand
  is evaluated only when the left one is false.
\<close>

definition emlite_val_is_string :: "host \<Rightarrow> HandleTable \<Rightarrow> int \<Rightarrow> js_exn + bool" where
  "emlite_val_is_string H t arg =
     (let obj = get t arg in
      if typeof obj = ''string'' then Inr True else instanceof H obj ''String'')"

definition emlite_val_is_number :: "host \<Rightarrow> HandleTable \<Rightarrow> int \<Rightarrow> js_exn + bool" where
  "emlite_val_is_number H t arg =
     (let obj = get t arg in
      if typeof obj = ''number'' then Inr True else instanceof H obj ''Number'')"

definition emlite_val_is_bool :: "host \<Rightarrow> HandleTable \<Rightarrow> int \<Rightarrow> js_exn + int" where
  "emlite_val_is_bool H t h =
     (let v = get t h in
      thenE (if typeof v = ''boolean'' then Inr True else instanceof H v ''Boolean'')
        (\<lambda>b. Inr (if b then 1 else 0)))"

definition emlite_val_strictly_equals :: "HandleTable \<Rightarrow> int \<Rightarrow> int \<Rightarrow> bool" where
  "emlite_val_strictly_equals t a b = strictly_equals (get t a) (get t b)"

section \<open>Reset\<close>

text \<open>
  \<open>emlite_reset_object_map\<close> walks a snapshot of the keys of \<open>_h2e\<close> and removes
  both mappings of every handle above the bound; \<open>_h2e.get(h).value\<close> raises a
  TypeError if the entry is gone. The bound is 6 in \<open>src/emlite.js\<close> (version 1037)
  and 5 in the copy of version 1024.
\<close>

definition reset_step :: "int \<Rightarrow> js_exn + HandleTable \<Rightarrow> int \<Rightarrow> js_exn + HandleTable" where
  "reset_step bound r h =
     thenE r (\<lambda>t.
       if h > bound then
         (case map_of (h2e t) h of
            None \<Rightarrow> Inl TypeError
          | Some e \<Rightarrow> Inr (t\<lparr>h2e := AList.delete h (h2e t),
                               v2h := AList.delete (sv0key (val e)) (v2h t)\<rparr>))
       else Inr t)"

definition reset_above :: "int \<Rightarrow> HandleTable \<Rightarrow> js_exn + HandleTable" where
  "reset_above bound t = foldl (reset_step bound) (Inr t) (map fst (h2e t))"

definition emlite_reset_object_map :: "HandleTable \<Rightarrow> js_exn + HandleTable" where
  "emlite_reset_object_map t = reset_above 6 t"

definition emlite_reset_object_map_1024 :: "HandleTable \<Rightarrow> js_exn + HandleTable" where
  "emlite_reset_object_map_1024 t = reset_above 5 t"

section \<open>Tables the bridge can reach\<close>

text \<open>
  The guest changes the table only through the bridge: every constructor, call and
  callback ends in \<open>add\<close>, and there are \<open>emlite_val_inc_ref\<close>,
  \<open>emlite_val_dec_ref\<close> and \<open>emlite_reset_object_map\<close>.
\<close>

inductive reachable :: "HandleTable \<Rightarrow> bool" where
  init: "reachable EMLITE_VALMAP0"
| added: "reachable t \<Longrightarrow> add t v = Inr (h, t') \<Longrightarrow> reachable t'"
| inc_ref: "reachable t \<Longrightarrow> reachable (emlite_val_inc_ref t h)"
| dec_ref: "reachable t \<Longrightarrow> reachable (emlite_val_dec_ref t h)"
| reset: "reachable t \<Longrightarrow> emlite_reset_object_map t = Inr t' \<Longrightarrow> reachable t'"

section \<open>Text encoding\<close>

text \<open>
  \<open>TextEncoder\<close> and \<open>TextDecoder\<close> belong to the host platform; they are modelled
  after the Encoding Standard. Code points and code units are naturals here; a mask
  \<open>x & (2^k - 1)\<close> is written \<open>x mod 2^k\<close> and \<open>(x << 6) | y\<close> with \<open>y < 64\<close> is
  written \<open>x * 64 + y\<close>.
\<close>

definition is_lead :: "nat \<Rightarrow> bool" where
  "is_lead c \<longleftrightarrow> 0xD800 \<le> c \<and> c \<le> 0xDBFF"

definition is_trail :: "nat \<Rightarrow> bool" where
  "is_trail c \<longleftrightarrow> 0xDC00 \<le> c \<and> c \<le> 0xDFFF"

definition is_surrogate :: "nat \<Rightarrow> bool" where
  "is_surrogate c \<longleftrightarrow> 0xD800 \<le> c \<and> c \<le> 0xDFFF"

text \<open>
  A string handed to \<open>encode\<close> is read as scalar values: a lead surrogate followed by
  a trail surrogate is one code point, any other surrogate becomes U+FFFD.
\<close>

fun usv :: "nat list \<Rightarrow> nat list" where
  "usv [] = []"
| "usv [c] = (if is_surrogate c then [0xFFFD] else [c])"
| "usv (c # d # r) =
     (if is_lead c \<and> is_trail d then (0x10000 + (c - 0xD800) * 0x400 + (d - 0xDC00)) # usv r
      else if is_surrogate c then 0xFFFD # usv (d # r)
      else c # usv (d # r))"

text \<open>The UTF-8 encoder: one to four bytes for a scalar value.\<close>

definition utf8_bytes :: "nat \<Rightarrow> nat list" where
  "utf8_bytes c =
     (if c \<le> 0x7F then [c]
      else if c \<le> 0x7FF then [0xC0 + c div 64, 0x80 + c mod 64]
      else if c \<le> 0xFFFF then [0xE0 + c div 4096, 0x80 + (c div 64) mod 64, 0x80 + c mod 64]
      else [0xF0 + c div 262144, 0x80 + (c div 4096) mod 64, 0x80 + (c div 64) mod 64,
            0x80 + c mod 64])"

definition enc_encode :: "jsstring \<Rightarrow> 8 word list" where
  "enc_encode s = map of_nat (concat (map utf8_bytes (usv (map unat s))))"

text \<open>
  The UTF-8 decoder of the standard, with its five variables. An ill-formed sequence
  gives U+FFFD (the decoders of the source are not fatal); a byte that cannot continue
  a sequence is put back and read again.
\<close>

record utf8_decoder =
  code_point :: nat
  bytes_seen :: nat
  bytes_needed :: nat
  lower_boundary :: nat
  upper_boundary :: nat

definition utf8_initial :: utf8_decoder where
  "utf8_initial = \<lparr>code_point = 0, bytes_seen = 0, bytes_needed = 0,
                    lower_boundary = 0x80, upper_boundary = 0xBF\<rparr>"

function utf8_decode :: "utf8_decoder \<Rightarrow> nat list \<Rightarrow> nat list" where
  "utf8_decode d [] = (if bytes_needed d \<noteq> 0 then [0xFFFD] else [])"
| "utf8_decode d (b # bs) =
     (if bytes_needed d = 0 then
        if b \<le> 0x7F then b # utf8_decode d bs
        else if 0xC2 \<le> b \<and> b \<le> 0xDF then
          utf8_decode (d\<lparr>bytes_needed := 1, code_point := b mod 32\<rparr>) bs
        else if 0xE0 \<le> b \<and> b \<le> 0xEF then
          utf8_decode (d\<lparr>lower_boundary := (if b = 0xE0 then 0xA0 else lower_boundary d),
                          upper_boundary := (if b = 0xED then 0x9F else upper_boundary d),
                          bytes_needed := 2, code_point := b mod 16\<rparr>) bs
        else if 0xF0 \<le> b \<and> b \<le> 0xF4 then
          utf8_decode (d\<lparr>lower_boundary := (if b = 0xF0 then 0x90 else lower_boundary d),
                          upper_boundary := (if b = 0xF4 then 0x8F else upper_boundary d),
                          bytes_needed := 3, code_point := b mod 8\<rparr>) bs
        else 0xFFFD # utf8_decode d bs
      else if b < lower_boundary d \<or> upper_boundary d < b then
        0xFFFD # utf8_decode utf8_initial (b # bs)
      else
        (let d' = d\<lparr>lower_boundary := 0x80, upper_boundary := 0xBF,
                     code_point := code_point d * 64 + b mod 64,
                     bytes_seen := bytes_seen d + 1\<rparr>
         in if bytes_seen d' \<noteq> bytes_needed d' then utf8_decode d' bs
            else code_point d' # utf8_decode utf8_initial bs))"
  by pat_completeness auto
termination
  by (relation "measure (\<lambda>(d, bs). 2 * length bs + (if bytes_needed d = 0 then 0 else 1))")
     (auto simp: utf8_initial_def)

text \<open>
  The UTF-16LE decoder of the standard: \<open>lb\<close> is the pending first byte of a code
  unit, \<open>ls\<close> the pending lead surrogate. A code unit that does not complete a pair is
  put back, low byte first.
\<close>

function utf16le_decode :: "nat option \<Rightarrow> nat option \<Rightarrow> nat list \<Rightarrow> nat list" where
  "utf16le_decode lb ls [] = (if lb \<noteq> None \<or> ls \<noteq> None then [0xFFFD] else [])"
| "utf16le_decode None ls (b # bs) = utf16le_decode (Some b) ls bs"
| "utf16le_decode (Some l) ls (b # bs) =
     (let cu = b * 256 + l in
      case ls of
        Some s \<Rightarrow>
          if is_trail cu
          then (0x10000 + (s - 0xD800) * 0x400 + (cu - 0xDC00)) # utf16le_decode None None bs
          else 0xFFFD # utf16le_decode None None (cu mod 256 # cu div 256 # bs)
      | None \<Rightarrow>
          if is_lead cu then utf16le_decode None (Some cu) bs
          else if is_trail cu then 0xFFFD # utf16le_decode None None bs
          else cu # utf16le_decode None None bs)"
  by pat_completeness auto
termination
  by (relation "measure (\<lambda>(lb, ls, bs). 3 * length bs + (if ls = None then 0 else 4) +
        (if lb = None then 0 else 2))")
     (auto simp: Let_def)

text \<open>
  \<open>decode\<close> drops one leading U+FEFF (the decoders of the source are made without
  \<open>ignoreBOM\<close>) and returns the scalar values as a string of code units.
\<close>

definition strip_BOM :: "nat list \<Rightarrow> nat list" where
  "strip_BOM cs = (case cs of [] \<Rightarrow> [] | c # r \<Rightarrow> if c = 0xFEFF then r else cs)"

definition code_units :: "nat \<Rightarrow> nat list" where
  "code_units c =
     (if c < 0x10000 then [c]
      else [0xD800 + (c - 0x10000) div 0x400, 0xDC00 + (c - 0x10000) mod 0x400])"

definition to_jsstring :: "nat list \<Rightarrow> jsstring" where
  "to_jsstring cs = map of_nat (concat (map code_units cs))"

definition dec_decode :: "8 word list \<Rightarrow> jsstring" where
  "dec_decode bytes = to_jsstring (strip_BOM (utf8_decode utf8_initial (map unat bytes)))"

definition dec_16_decode :: "8 word list \<Rightarrow> jsstring" where
  "dec_16_decode bytes = to_jsstring (strip_BOM (utf16le_decode None None (map unat bytes)))"

section \<open>Guest memory\<close>

text \<open>
  The linear memory as the bridge sees it: the bytes of the current buffer, and
  whether the typed-array views of the bridge are views of that buffer
  (\<open>this._u8.buffer === this._memory.buffer\<close>). The memory is an unshared one, as the
  constructor makes it: growing it replaces the buffer and detaches the old one, and
  the views stay detached until \<open>_updateViews\<close> runs (from \<open>_ensureViewsFresh\<close>, or
  when the guest calls \<open>emscripten_notify_memory_growth\<close>).
\<close>

record wasm_memory =
  buffer :: "8 word list"
  views_fresh :: bool

definition ensureViewsFresh :: "wasm_memory \<Rightarrow> wasm_memory" where
  "ensureViewsFresh m = m\<lparr>views_fresh := True\<rparr>"

text \<open>
  \<open>subarray(begin, end)\<close>: a negative index counts from the end, both are clamped to
  the array.
\<close>

definition relative_index :: "int \<Rightarrow> int \<Rightarrow> nat" where
  "relative_index n i = nat (if i < 0 then max (n + i) 0 else min i n)"

definition subarray :: "'a list \<Rightarrow> int \<Rightarrow> int \<Rightarrow> 'a list" where
  "subarray xs b e =
     (let n = int (length xs); b' = relative_index n b; e' = relative_index n e
      in take (e' - b') (drop b' xs))"

text \<open>
  \<open>this._u8.set(bytes, offset)\<close>: a RangeError for a negative offset, a TypeError on a
  detached view, a RangeError when the bytes do not fit.
\<close>

definition u8_set :: "wasm_memory \<Rightarrow> 8 word list \<Rightarrow> int \<Rightarrow> js_exn + wasm_memory" where
  "u8_set m bytes offset =
     (if offset < 0 then Inl RangeError
      else if \<not> views_fresh m then Inl TypeError
      else if int (length (buffer m)) < offset + int (length bytes) then Inl RangeError
      else Inr (m\<lparr>buffer := take (nat offset) (buffer m) @ bytes @
                               drop (nat offset + length bytes) (buffer m)\<rparr>))"

text \<open>
  \<open>this._u16[i] = c\<close>: the two bytes of \<open>c\<close>, low byte first; a store outside the view,
  or through a detached view, does nothing.
\<close>

definition u16_store :: "wasm_memory \<Rightarrow> int \<Rightarrow> 16 word \<Rightarrow> wasm_memory" where
  "u16_store m i c =
     (if views_fresh m \<and> 0 \<le> i \<and> i < int (length (buffer m) div 2)
      then m\<lparr>buffer := (buffer m)[2 * nat i := of_nat (unat c mod 256),
                                    2 * nat i + 1 := of_nat (unat c div 256)]\<rparr>
      else m)"

text \<open>
  The exports of the guest that the bridge uses; \<open>None\<close> is an export that is absent.
  \<open>emlite_target\<close> is what a call of that export gives. \<open>emlite_malloc\<close> is an
  exported function from \<open>i32\<close> to \<open>i32\<close>: a call works on the memory, may grow it, and
  gives an integer or traps (\<open>Inl\<close>); an export of that name that is no function is one
  whose call throws a TypeError.
\<close>

record exports =
  emlite_target :: "(js_exn + jsval) option"
  emlite_malloc :: "(wasm_memory \<Rightarrow> int \<Rightarrow> js_exn + (int \<times> wasm_memory)) option"

text \<open>
  \<open>this.exports\<close>: the constructor does not set it, so it is \<open>undefined\<close> (\<open>None\<close>)
  until \<open>setExports\<close> stores the exports of the instance. \<open>setExports\<close> calls
  \<open>emlite_target\<close> when it is there, to warn on the console about another version; the
  warning changes nothing, a throw of the call leaves \<open>setExports\<close> before the
  assignment.
\<close>

definition setExports :: "exports \<Rightarrow> js_exn + exports option" where
  "setExports X =
     (case emlite_target X of
        None \<Rightarrow> Inr (Some X)
      | Some r \<Rightarrow> thenE r (\<lambda>_. Inr (Some X)))"

section \<open>Strings across the bridge\<close>

definition cStr :: "wasm_memory \<Rightarrow> int \<Rightarrow> int \<Rightarrow> jsstring" where
  "cStr m ptr len = dec_decode (subarray (buffer (ensureViewsFresh m)) ptr (ptr + len))"

definition cStrUtf16 :: "wasm_memory \<Rightarrow> int \<Rightarrow> int \<Rightarrow> jsstring" where
  "cStrUtf16 m ptr len = dec_16_decode (subarray (buffer (ensureViewsFresh m)) ptr (ptr + len * 2))"

text \<open>
  The guard \<open>!str || !(typeof str === "string" || str instanceof String)\<close>, evaluated
  from left to right, and the code units of the argument once it has passed (those of a
  \<open>String\<close> object are the engine's to give).
\<close>

definition not_a_string :: "host \<Rightarrow> jsval \<Rightarrow> js_exn + bool" where
  "not_a_string H str =
     (if \<not> truthy str then Inr True
      else if typeof str = ''string'' then Inr False
      else thenE (instanceof H str ''String'') (\<lambda>b. Inr (\<not> b)))"

definition string_units :: "host \<Rightarrow> jsval \<Rightarrow> js_exn + jsstring" where
  "string_units H str = (case str of JString s \<Rightarrow> Inr s | _ \<Rightarrow> ToString H str)"

text \<open>
  \<open>copyStringToWasm\<close>. \<open>E\<close> is \<open>this.exports\<close>: reading \<open>emlite_malloc\<close> of
  \<open>undefined\<close> throws a TypeError.
\<close>

definition copyStringToWasm ::
  "host \<Rightarrow> exports option \<Rightarrow> wasm_memory \<Rightarrow> jsval \<Rightarrow> js_exn + (int \<times> wasm_memory)" where
  "copyStringToWasm H E m str =
     thenE (not_a_string H str) (\<lambda>no.
       if no then Inr (0, m)
       else
         let m = ensureViewsFresh m in
         case E of
           None \<Rightarrow> Inl TypeError
         | Some X \<Rightarrow>
             (case emlite_malloc X of
                Some malloc \<Rightarrow>
                  thenE (string_units H str) (\<lambda>s.
                    let utf8 = enc_encode (s @ [0]) in
                    thenE (malloc m (int (length utf8))) (\<lambda>(ptr, m).
                      if ptr = 0 then Inl (ErrorMsg ''malloc failed in copyStringToWasm'')
                      else thenE (u8_set m utf8 ptr) (\<lambda>m. Inr (ptr, m))))
              | None \<Rightarrow> Inr (0, m)))"

text \<open>The loop \<open>this._u16[startIdx + i] = str.charCodeAt(i)\<close>.\<close>

primrec store_units :: "wasm_memory \<Rightarrow> int \<Rightarrow> 16 word list \<Rightarrow> wasm_memory" where
  "store_units m i [] = m"
| "store_units m i (c # cs) = store_units (u16_store m i c) (i + 1) cs"

definition copyStringToWasmUtf16 ::
  "host \<Rightarrow> exports option \<Rightarrow> wasm_memory \<Rightarrow> jsval \<Rightarrow> js_exn + (int \<times> wasm_memory)" where
  "copyStringToWasmUtf16 H E m str =
     thenE (not_a_string H str) (\<lambda>no.
       if no then Inr (0, m)
       else
         let m = ensureViewsFresh m in
         case E of
           None \<Rightarrow> Inl TypeError
         | Some X \<Rightarrow>
             (case emlite_malloc X of
                Some malloc \<Rightarrow>
                  thenE (string_units H str) (\<lambda>s.
                    let byteLength = (int (length s) + 1) * 2 in
                    thenE (malloc m byteLength) (\<lambda>(ptr, m).
                      if ptr = 0 then Inl (ErrorMsg ''malloc failed in copyStringToWasmUtf16'')
                      else if ptr mod 2 \<noteq> 0 then Inl (ErrorMsg ''UTF-16 string not properly aligned'')
                      else
                        let startIdx = (ptr mod 2 ^ 32) div 2;
                            m = store_units m startIdx s;
                            m = u16_store m (startIdx + int (length s)) 0
                        in Inr (ptr, m)))
              | None \<Rightarrow> Inr (0, m)))"

definition emlite_val_get_value_string ::
  "host \<Rightarrow> exports option \<Rightarrow> HandleTable \<Rightarrow> wasm_memory \<Rightarrow> int \<Rightarrow> js_exn + (int \<times> wasm_memory)" where
  "emlite_val_get_value_string H E t m n = copyStringToWasm H E m (get t n)"

definition emlite_val_get_value_string_utf16 ::
  "host \<Rightarrow> exports option \<Rightarrow> HandleTable \<Rightarrow> wasm_memory \<Rightarrow> int \<Rightarrow> js_exn + (int \<times> wasm_memory)" where
  "emlite_val_get_value_string_utf16 H E t m n = copyStringToWasmUtf16 H E m (get t n)"

definition emlite_val_typeof ::
  "host \<Rightarrow> exports option \<Rightarrow> HandleTable \<Rightarrow> wasm_memory \<Rightarrow> int \<Rightarrow> js_exn + (int \<times> wasm_memory)" where
  "emlite_val_typeof H E t m n = copyStringToWasm H E m (JString (js (typeof (get t n))))"

section \<open>The table's invariant\<close>

text \<open>
  A \<open>Map\<close> holds each key once. The two maps mirror each other, every live entry has
  a positive reference count and a handle below the counter.
\<close>

definition table_inv :: "HandleTable \<Rightarrow> bool" where
  "table_inv t \<longleftrightarrow>
     distinct (map fst (h2e t)) \<and> distinct (map fst (v2h t)) \<and>
     (\<forall>k h. map_of (v2h t) k = Some h \<longrightarrow>
        (\<exists>e. map_of (h2e t) h = Some e \<and> sv0key (val e) = k)) \<and>
     (\<forall>h e. map_of (h2e t) h = Some e \<longrightarrow>
        map_of (v2h t) (sv0key (val e)) = Some h \<and> 1 \<le> refs e \<and> h < next_handle t)"

lemma sv0key_idem [simp]: "sv0key (sv0key v) = sv0key v"
  by (simp add: sv0key_def)

lemma init_table: "emlite_init_handle_table = Inr EMLITE_VALMAP0"
  by (simp add: emlite_init_handle_table_def add_all_def singletons_def new_HandleTable_def
      add_def newEntry_def thenE_def EMLITE_VALMAP0_def globalThis_def console_def
      EMLITE_RESERVED_def sv0key_def)

lemma table_inv_init: "table_inv EMLITE_VALMAP0"
  by (auto simp: table_inv_def EMLITE_VALMAP0_def globalThis_def console_def
      EMLITE_RESERVED_def sv0key_def split: if_splits)

section \<open>Deduplication\<close>

lemma strictly_equals_sv0key: "strictly_equals a b \<Longrightarrow> sv0key a = sv0key b"
  by (cases a; cases b; simp add: strictly_equals_def sv0key_def)
     (rename_tac x y, case_tac x; case_tac y; simp)

lemma add_returns: 
  assumes "table_inv t" shows "\<exists>h t1. add t v = Inr (h, t1)"
proof (cases "map_of (v2h t) (sv0key v)")
  case None then show ?thesis by (simp add: add_def)
next
  case (Some h)
  with assms obtain e where "map_of (h2e t) h = Some e" unfolding table_inv_def by blast
  with Some show ?thesis by (simp add: add_def)
qed

lemma add_again:
  assumes "add t v1 = Inr (h, t1)" "sv0key v2 = sv0key v1"
  shows "\<exists>e. map_of (h2e t1) h = Some e \<and>
     add t1 v2 = Inr (h, t1\<lparr>h2e := AList.update h (e\<lparr>refs := refs e + 1\<rparr>) (h2e t1)\<rparr>)"
  using assms
  by (auto simp: add_def newEntry_def Let_def update_conv' split: option.splits)

lemma map_fst_update_present:
  "map_of al k = Some x \<Longrightarrow> map fst (AList.update k y al) = map fst al"
  by (induction al) (auto split: if_splits)

text \<open>
  C1. When \<open>v1\<close> and \<open>v2\<close> are strictly equal (the same number, string or
  boolean, or the identical object or function) and \<open>add v1\<close> has returned the
  handle \<open>h\<close>, then \<open>add v2\<close> returns \<open>h\<close> too: the counter and the set of
  handles stay as they are, the reverse index is untouched, and the entry's reference
  count is one higher. On a table that satisfies the invariant the first \<open>add\<close> does
  return.
\<close>

theorem add_dedup:
  assumes "strictly_equals v1 v2"
  shows "(\<forall>h t1. add t v1 = Inr (h, t1) \<longrightarrow>
           (\<exists>t2. add t1 v2 = Inr (h, t2) \<and> next_handle t2 = next_handle t1 \<and>
                 map fst (h2e t2) = map fst (h2e t1) \<and> v2h t2 = v2h t1 \<and>
                 refs_of t1 h \<noteq> None \<and>
                 refs_of t2 h = map_option (\<lambda>r. r + 1) (refs_of t1 h) \<and>
                 get t2 h = get t1 h)) \<and>
         (table_inv t \<longrightarrow> (\<exists>h t1. add t v1 = Inr (h, t1)))"
proof (intro conjI allI impI)
  fix h t1 assume a: "add t v1 = Inr (h, t1)"
  from assms have k: "sv0key v2 = sv0key v1" by (simp add: strictly_equals_sv0key)
  from add_again [OF a k] obtain e where e: "map_of (h2e t1) h = Some e"
    and s: "add t1 v2 = Inr (h, t1\<lparr>h2e := AList.update h (e\<lparr>refs := refs e + 1\<rparr>) (h2e t1)\<rparr>)"
    by blast
  show "\<exists>t2. add t1 v2 = Inr (h, t2) \<and> next_handle t2 = next_handle t1 \<and>
                 map fst (h2e t2) = map fst (h2e t1) \<and> v2h t2 = v2h t1 \<and>
                 refs_of t1 h \<noteq> None \<and>
                 refs_of t2 h = map_option (\<lambda>r. r + 1) (refs_of t1 h) \<and>
                 get t2 h = get t1 h"
    using e s by (simp add: refs_of_def get_def update_conv' map_fst_update_present)
next
  assume "table_inv t" then show "\<exists>h t1. add t v1 = Inr (h, t1)" by (rule add_returns)
qed

theorem add_dedup_witness:
  "strictly_equals (JNumber (Fin 7)) (JNumber (Fin 7)) \<and> table_inv EMLITE_VALMAP0 \<and>
   (\<exists>h t1 t2. add EMLITE_VALMAP0 (JNumber (Fin 7)) = Inr (h, t1) \<and>
      add t1 (JNumber (Fin 7)) = Inr (h, t2) \<and> next_handle t2 = next_handle t1 \<and>
      map fst (h2e t2) = map fst (h2e t1) \<and> refs_of t1 h \<noteq> None \<and>
      refs_of t2 h = map_option (\<lambda>r. r + 1) (refs_of t1 h))"
proof -
  have e: "strictly_equals (JNumber (Fin 7)) (JNumber (Fin 7))"
    by (simp add: strictly_equals_def)
  note d = add_dedup [OF e, of EMLITE_VALMAP0]
  from d table_inv_init obtain h t1 where a: "add EMLITE_VALMAP0 (JNumber (Fin 7)) = Inr (h, t1)"
    by blast
  with d obtain t2 where "add t1 (JNumber (Fin 7)) = Inr (h, t2)"
    "next_handle t2 = next_handle t1" "map fst (h2e t2) = map fst (h2e t1)"
    "refs_of t1 h \<noteq> None" "refs_of t2 h = map_option (\<lambda>r. r + 1) (refs_of t1 h)"
    by blast
  with a e table_inv_init show ?thesis by blast
qed

section \<open>Reference counts\<close>

lemma incRef_iter:
  "map_of (h2e s) h = Some e \<Longrightarrow>
   map_of (h2e (((\<lambda>s. incRef s h) ^^ n) s)) h = Some (e\<lparr>refs := refs e + int n\<rparr>)"
proof (induction n arbitrary: s e)
  case 0 then show ?case by simp
next
  case (Suc n)
  have "map_of (h2e (incRef s h)) h = Some (e\<lparr>refs := refs e + 1\<rparr>)"
    using Suc.prems by (simp add: incRef_def update_conv')
  from Suc.IH [OF this] show ?case
    unfolding funpow_Suc_right o_def by (simp add: add.assoc)
qed

lemma decRef_iter:
  "map_of (h2e s) h = Some e \<Longrightarrow> int n < refs e \<Longrightarrow>
   map_of (h2e (((\<lambda>s. snd (decRef s h)) ^^ n) s)) h = Some (e\<lparr>refs := refs e - int n\<rparr>)"
proof (induction n arbitrary: s e)
  case 0 then show ?case by simp
next
  case (Suc n)
  have "map_of (h2e (snd (decRef s h))) h = Some (e\<lparr>refs := refs e - 1\<rparr>)"
    using Suc.prems by (simp add: decRef_def update_conv')
  from Suc.IH [OF this] Suc.prems(2) show ?case
    unfolding funpow_Suc_right o_def by (simp add: algebra_simps)
qed

lemma decRef_last:
  "map_of (h2e s) h = Some e \<Longrightarrow> refs e = 1 \<Longrightarrow> map_of (h2e (snd (decRef s h))) h = None"
  by (simp add: decRef_def delete_conv')

text \<open>
  C2. A value the table does not hold is added and gets the handle \<open>h\<close>. After
  \<open>n\<close> calls of \<open>incRef(h)\<close> and \<open>n + 1\<close> calls of the table's \<open>decRef(h)\<close>,
  \<open>get(h)\<close> is \<open>undefined\<close>; after \<open>n\<close> and \<open>n\<close> calls it is the value that was
  added.
\<close>

theorem refcount_liveness:
  assumes "\<not> has t v"
  shows "\<exists>h t1. add t v = Inr (h, t1) \<and>
           get (((\<lambda>s. snd (decRef s h)) ^^ (n + 1)) (((\<lambda>s. incRef s h) ^^ n) t1)) h = JUndefined \<and>
           get (((\<lambda>s. snd (decRef s h)) ^^ n) (((\<lambda>s. incRef s h) ^^ n) t1)) h = v"
proof -
  define h where "h = next_handle t"
  define t1 where "t1 = snd (newEntry t v)"
  let ?inc = "((\<lambda>s. incRef s h) ^^ n) t1"
  have a: "add t v = Inr (h, t1)"
    using assms by (simp add: add_def has_def h_def t1_def newEntry_def Let_def)
  have e1: "map_of (h2e t1) h = Some \<lparr>val = v, refs = 1\<rparr>"
    by (simp add: t1_def h_def newEntry_def Let_def update_conv')
  have e2: "map_of (h2e ?inc) h = Some \<lparr>val = v, refs = 1 + int n\<rparr>"
    using incRef_iter [OF e1, of n] by simp
  have e3: "map_of (h2e (((\<lambda>s. snd (decRef s h)) ^^ n) ?inc)) h = Some \<lparr>val = v, refs = 1\<rparr>"
    using decRef_iter [OF e2, of n] by simp
  have e4: "map_of (h2e (((\<lambda>s. snd (decRef s h)) ^^ (n + 1)) ?inc)) h = None"
    using decRef_last [OF e3] by simp
  from a e3 e4 show ?thesis by (auto simp: get_def)
qed

theorem refcount_liveness_witness:
  "\<not> has EMLITE_VALMAP0 (JString (js ''a'')) \<and>
   (\<exists>h t1. add EMLITE_VALMAP0 (JString (js ''a'')) = Inr (h, t1) \<and>
           get (((\<lambda>s. snd (decRef s h)) ^^ (2 + 1)) (((\<lambda>s. incRef s h) ^^ 2) t1)) h = JUndefined \<and>
           get (((\<lambda>s. snd (decRef s h)) ^^ 2) (((\<lambda>s. incRef s h) ^^ 2) t1)) h = JString (js ''a''))"
proof -
  have h: "\<not> has EMLITE_VALMAP0 (JString (js ''a''))"
    by (simp add: has_def EMLITE_VALMAP0_def sv0key_def globalThis_def console_def EMLITE_RESERVED_def)
  from refcount_liveness [OF h, of 2] h show ?thesis by blast
qed

text \<open>
  C3. For a handle \<open>h\<close> in \<open>0..6\<close>, any number of calls of
  \<open>emlite_val_dec_ref(h)\<close> leaves the table as it is, so after initialisation
  \<open>get(h)\<close> stays the singleton of \<open>h\<close>. The guard is the bridge's: the table's own
  \<open>decRef(h)\<close> evicts the entry of a reserved handle, whose count is 1.
\<close>

theorem reserved_immutable:
  assumes "h \<in> {0..6}"
  shows "((\<lambda>s. emlite_val_dec_ref s h) ^^ n) t = t \<and>
         get (((\<lambda>s. emlite_val_dec_ref s h) ^^ n) EMLITE_VALMAP0) h = singletons ! nat h \<and>
         refs_of EMLITE_VALMAP0 h = Some 1 \<and>
         refs_of (snd (decRef EMLITE_VALMAP0 h)) h = None"
proof -
  have same: "((\<lambda>s. emlite_val_dec_ref s h) ^^ n) s = s" for s
    using assms by (induction n) (simp_all add: emlite_val_dec_ref_def)
  from assms have "h = 0 \<or> h = 1 \<or> h = 2 \<or> h = 3 \<or> h = 4 \<or> h = 5 \<or> h = 6"
    by (simp add: atLeastAtMost_iff) arith
  then have "get EMLITE_VALMAP0 h = singletons ! nat h \<and> refs_of EMLITE_VALMAP0 h = Some 1 \<and>
         refs_of (snd (decRef EMLITE_VALMAP0 h)) h = None"
    by (elim disjE) (simp_all add: get_def refs_of_def decRef_def EMLITE_VALMAP0_def singletons_def)
  with same show ?thesis by simp
qed

theorem reserved_immutable_witness:
  "((\<lambda>s. emlite_val_dec_ref s 3) ^^ 5) EMLITE_VALMAP0 = EMLITE_VALMAP0 \<and>
   get (((\<lambda>s. emlite_val_dec_ref s 3) ^^ 5) EMLITE_VALMAP0) 3 = JBool True \<and>
   refs_of (snd (decRef EMLITE_VALMAP0 3)) 3 = None"
proof -
  have r: "(3::int) \<in> {0..6}" by simp
  have "singletons ! nat 3 = JBool True" by (simp add: singletons_def numeral_3_eq_3)
  with reserved_immutable [OF r, of 5 EMLITE_VALMAP0] show ?thesis by metis
qed

section \<open>The invariant is kept\<close>

lemma table_inv_bump:
  assumes "table_inv t" "map_of (h2e t) h = Some e" "1 \<le> r"
  shows "table_inv (t\<lparr>h2e := AList.update h (e\<lparr>refs := r\<rparr>) (h2e t)\<rparr>)"
  using assms unfolding table_inv_def
  by (simp add: update_conv' distinct_update del: map_of_eq_Some_iff)
     (intro conjI allI impI; metis option.inject)

lemma table_inv_evict:
  assumes "table_inv t" "map_of (h2e t) h = Some e"
  shows "table_inv (t\<lparr>h2e := AList.delete h (h2e t),
                      v2h := AList.delete (sv0key (val e)) (v2h t)\<rparr>)"
  using assms unfolding table_inv_def
  by (simp add: delete_conv' distinct_delete del: map_of_eq_Some_iff)
     (intro conjI allI impI; metis option.inject)

lemma table_inv_newEntry:
  assumes "table_inv t" "map_of (v2h t) (sv0key v) = None"
  shows "table_inv (snd (newEntry t v))"
proof -
  have fresh: "map_of (h2e t) (next_handle t) = None"
    using assms(1) unfolding table_inv_def
    by (cases "map_of (h2e t) (next_handle t)") (auto simp del: map_of_eq_Some_iff)
  show ?thesis
    using assms fresh unfolding table_inv_def newEntry_def Let_def
    by (simp add: update_conv' distinct_update del: map_of_eq_Some_iff)
       (intro conjI allI impI; metis option.inject option.distinct(1) order_less_imp_le)
qed

lemma table_inv_add:
  assumes "table_inv t" "add t v = Inr (h, t')"
  shows "table_inv t'"
proof (cases "map_of (v2h t) (sv0key v)")
  case None
  with assms(2) have "t' = snd (newEntry t v)" by (simp add: add_def)
  with table_inv_newEntry [OF assms(1) None] show ?thesis by simp
next
  case (Some k)
  with assms(1) obtain e where e: "map_of (h2e t) k = Some e" "1 \<le> refs e"
    unfolding table_inv_def by blast
  with Some assms(2) have "t' = t\<lparr>h2e := AList.update k (e\<lparr>refs := refs e + 1\<rparr>) (h2e t)\<rparr>"
    by (auto simp: add_def)
  with table_inv_bump [OF assms(1) e(1), of "refs e + 1"] e(2) show ?thesis by simp
qed

lemma table_inv_incRef: "table_inv t \<Longrightarrow> table_inv (incRef t h)"
proof (cases "map_of (h2e t) h")
  case None then show "table_inv t \<Longrightarrow> ?thesis" by (simp add: incRef_def)
next
  case (Some e)
  assume i: "table_inv t"
  then have "1 \<le> refs e" using Some unfolding table_inv_def by blast
  with table_inv_bump [OF i Some, of "refs e + 1"] Some show ?thesis by (simp add: incRef_def)
qed

lemma table_inv_decRef: "table_inv t \<Longrightarrow> table_inv (snd (decRef t h))"
proof (cases "map_of (h2e t) h")
  case None then show "table_inv t \<Longrightarrow> ?thesis" by (simp add: decRef_def)
next
  case (Some e)
  assume i: "table_inv t"
  then have r: "1 \<le> refs e" using Some unfolding table_inv_def by blast
  show ?thesis
  proof (cases "refs e - 1 = 0")
    case True
    with table_inv_evict [OF i Some] Some show ?thesis by (simp add: decRef_def)
  next
    case False
    with r have "1 \<le> refs e - 1" by simp
    from table_inv_bump [OF i Some this] Some False show ?thesis by (simp add: decRef_def)
  qed
qed

lemma table_inv_dec_ref: "table_inv t \<Longrightarrow> table_inv (emlite_val_dec_ref t h)"
  by (simp add: emlite_val_dec_ref_def table_inv_decRef)

text \<open>
  On a table that satisfies the invariant \<open>add\<close> returns, and the handle it returns
  leads to the value that was added (up to the sign of a zero).
\<close>

lemma add_get:
  assumes "table_inv t"
  shows "\<exists>h t'. add t v = Inr (h, t') \<and> sv0key (get t' h) = sv0key v \<and> table_inv t'"
proof (cases "map_of (v2h t) (sv0key v)")
  case None
  then have a: "add t v = Inr (newEntry t v)" by (simp add: add_def)
  have "sv0key (get (snd (newEntry t v)) (fst (newEntry t v))) = sv0key v"
    by (simp add: newEntry_def Let_def get_def update_conv')
  moreover have "table_inv (snd (newEntry t v))" by (rule table_inv_newEntry [OF assms None])
  ultimately show ?thesis using a by (metis prod.collapse)
next
  case (Some k)
  with assms obtain e where e: "map_of (h2e t) k = Some e" "sv0key (val e) = sv0key v"
    unfolding table_inv_def by blast
  let ?t = "t\<lparr>h2e := AList.update k (e\<lparr>refs := refs e + 1\<rparr>) (h2e t)\<rparr>"
  have a: "add t v = Inr (k, ?t)" using Some e by (simp add: add_def)
  have "sv0key (get ?t k) = sv0key v" using e by (simp add: get_def update_conv')
  with a table_inv_add [OF assms a] show ?thesis by blast
qed

section \<open>Numbers: round trip and normalisation\<close>

lemma js_truncate_of_int [simp]: "js_truncate (real_of_int x) = x"
  by (simp add: js_truncate_def flip: of_int_minus)

lemma mod_2_32_signed:
  assumes "- (2 ^ 31) \<le> (x::int)" "x < 2 ^ 31"
  shows "x mod 2 ^ 32 = (if 0 \<le> x then x else x + 2 ^ 32)"
proof (cases "0 \<le> x")
  case True
  with assms show ?thesis by simp
next
  case False
  with assms have "(x + 2 ^ 32) mod 2 ^ 32 = x + 2 ^ 32"
    by (intro mod_pos_pos_trivial) simp_all
  with False show ?thesis by simp
qed

lemma ToInt32_of_int: "- (2 ^ 31) \<le> x \<Longrightarrow> x < 2 ^ 31 \<Longrightarrow> ToInt32 (Fin (real_of_int x)) = x"
  using mod_2_32_signed [of x] by (auto simp: ToInt32_def ToUint32_def Let_def)

lemma ToUint32_of_int: "0 \<le> u \<Longrightarrow> u < 2 ^ 32 \<Longrightarrow> ToUint32 (Fin (real_of_int u)) = u"
  by (simp add: ToUint32_def)

lemma sv0key_number:
  assumes "sv0key a = sv0key (JNumber (Fin r))"
  shows "a = JNumber (Fin r) \<or> (r = 0 \<and> a = JNumber NegZero)"
  using assms by (auto simp: sv0key_def split: if_splits)

lemma sv0key_bigint: "sv0key a = sv0key (JBigInt y) \<Longrightarrow> a = JBigInt y"
  by (auto simp: sv0key_def split: if_splits)

lemma get_value_int_number:
  assumes "sv0key (get t h) = sv0key (JNumber (Fin r))"
  shows "emlite_val_get_value_int H t h = Inr (Fin (real_of_int (ToInt32 (Fin r))))"
    and "emlite_val_get_value_uint H t h = Inr (Fin (real_of_int (ToUint32 (Fin r))))"
  using sv0key_number [OF assms]
  by (auto simp: emlite_val_get_value_int_def emlite_val_get_value_uint_def ToNumber_def thenE_def
      ToInt32_def ToUint32_def js_truncate_def)

text \<open>
  C5. On a table that satisfies the invariant, for every integer \<open>x\<close> with
  \<open>-2^31 \<le> x < 2^31\<close>, \<open>emlite_val_get_value_int(emlite_val_make_int(x))\<close> is
  \<open>x\<close>; for every integer \<open>u\<close> with \<open>0 \<le> u < 2^32\<close>,
  \<open>emlite_val_get_value_uint(emlite_val_make_uint(u))\<close> is \<open>u\<close>; and
  \<open>emlite_val_get_value_uint(emlite_val_make_int(-1))\<close> is 4294967295.
\<close>

theorem int32_roundtrip:
  assumes "table_inv t" "- (2 ^ 31) \<le> x" "x < 2 ^ 31" "0 \<le> u" "u < 2 ^ 32"
  shows "(\<exists>h t'. emlite_val_make_int t (Fin (real_of_int x)) = Inr (h, t') \<and>
            emlite_val_get_value_int H t' h = Inr (Fin (real_of_int x))) \<and>
         (\<exists>h t'. emlite_val_make_uint t (Fin (real_of_int u)) = Inr (h, t') \<and>
            emlite_val_get_value_uint H t' h = Inr (Fin (real_of_int u))) \<and>
         (\<exists>h t'. emlite_val_make_int t (Fin (- 1)) = Inr (h, t') \<and>
            emlite_val_get_value_uint H t' h = Inr (Fin 4294967295))"
proof (intro conjI)
  from add_get [OF assms(1), of "JNumber (Fin (real_of_int x))"] obtain h t'
    where "add t (JNumber (Fin (real_of_int x))) = Inr (h, t')"
      "sv0key (get t' h) = sv0key (JNumber (Fin (real_of_int x)))" by blast
  then show "\<exists>h t'. emlite_val_make_int t (Fin (real_of_int x)) = Inr (h, t') \<and>
            emlite_val_get_value_int H t' h = Inr (Fin (real_of_int x))"
    using assms(2,3) by (auto simp: emlite_val_make_int_def ToInt32_of_int get_value_int_number)
next
  from add_get [OF assms(1), of "JNumber (Fin (real_of_int u))"] obtain h t'
    where "add t (JNumber (Fin (real_of_int u))) = Inr (h, t')"
      "sv0key (get t' h) = sv0key (JNumber (Fin (real_of_int u)))" by blast
  then show "\<exists>h t'. emlite_val_make_uint t (Fin (real_of_int u)) = Inr (h, t') \<and>
            emlite_val_get_value_uint H t' h = Inr (Fin (real_of_int u))"
    using assms(4,5) by (auto simp: emlite_val_make_uint_def ToUint32_of_int get_value_int_number)
next
  have m: "ToInt32 (Fin (- 1)) = - 1" using ToInt32_of_int [of "- 1"] by simp
  have n: "ToUint32 (Fin (- 1)) = 4294967295"
    by (simp add: ToUint32_def js_truncate_def)
  from add_get [OF assms(1), of "JNumber (Fin (- 1))"] obtain h t'
    where "add t (JNumber (Fin (- 1))) = Inr (h, t')"
      "sv0key (get t' h) = sv0key (JNumber (Fin (- 1)))" by blast
  then show "\<exists>h t'. emlite_val_make_int t (Fin (- 1)) = Inr (h, t') \<and>
            emlite_val_get_value_uint H t' h = Inr (Fin 4294967295)"
    using m n by (auto simp: emlite_val_make_int_def get_value_int_number)
qed

theorem int32_roundtrip_witness:
  "table_inv EMLITE_VALMAP0 \<and>
   (\<forall>H. (\<exists>h t'. emlite_val_make_int EMLITE_VALMAP0 (Fin (real_of_int (- 5))) = Inr (h, t') \<and>
            emlite_val_get_value_int H t' h = Inr (Fin (real_of_int (- 5)))) \<and>
        (\<exists>h t'. emlite_val_make_uint EMLITE_VALMAP0 (Fin (real_of_int 4000000000)) = Inr (h, t') \<and>
            emlite_val_get_value_uint H t' h = Inr (Fin (real_of_int 4000000000))) \<and>
        (\<exists>h t'. emlite_val_make_int EMLITE_VALMAP0 (Fin (- 1)) = Inr (h, t') \<and>
            emlite_val_get_value_uint H t' h = Inr (Fin 4294967295)))"
proof -
  have "- (2 ^ 31) \<le> (- 5 :: int)" "(- 5 :: int) < 2 ^ 31"
    "(0::int) \<le> 4000000000" "(4000000000 :: int) < 2 ^ 32" by simp_all
  from int32_roundtrip [OF table_inv_init this] table_inv_init show ?thesis by blast
qed

text \<open>
  C9. On a table that satisfies the invariant, for every signed 64-bit value \<open>x\<close>,
  \<open>emlite_val_make_biguint(x)\<close> returns a handle whose value is the BigInt \<open>x\<close> when
  \<open>x \<ge> 0\<close> and \<open>x + 2^64\<close> when \<open>x < 0\<close>, which lies in \<open>[0, 2^64 - 1]\<close>; for
  \<open>x = -1\<close> it is \<open>2^64 - 1\<close>.
\<close>

theorem make_biguint_normalizes:
  assumes "table_inv t" "- (2 ^ 63) \<le> x" "x < 2 ^ 63"
  shows "(\<exists>h t'. emlite_val_make_biguint t x = Inr (h, t') \<and>
            get t' h = JBigInt (if 0 \<le> x then x else x + 2 ^ 64) \<and>
            (\<exists>y. get t' h = JBigInt y \<and> 0 \<le> y \<and> y \<le> 2 ^ 64 - 1)) \<and>
         (\<exists>h t'. emlite_val_make_biguint t (- 1) = Inr (h, t') \<and>
            get t' h = JBigInt (2 ^ 64 - 1))"
proof (intro conjI)
  let ?y = "if 0 \<le> x then x else x + 2 ^ 64"
  from add_get [OF assms(1), of "JBigInt ?y"] obtain h t'
    where a: "add t (JBigInt ?y) = Inr (h, t')" "sv0key (get t' h) = sv0key (JBigInt ?y)" by blast
  from a(2) have g: "get t' h = JBigInt ?y" by (rule sv0key_bigint)
  have r: "0 \<le> ?y \<and> ?y \<le> 2 ^ 64 - 1" using assms(2,3) by auto
  have "emlite_val_make_biguint t x = Inr (h, t')"
    using a(1) by (auto simp: emlite_val_make_biguint_def Let_def not_le split: if_splits)
  with g r show "\<exists>h t'. emlite_val_make_biguint t x = Inr (h, t') \<and>
            get t' h = JBigInt ?y \<and> (\<exists>y. get t' h = JBigInt y \<and> 0 \<le> y \<and> y \<le> 2 ^ 64 - 1)"
    by blast
next
  from add_get [OF assms(1), of "JBigInt (2 ^ 64 - 1)"] obtain h t'
    where a: "add t (JBigInt (2 ^ 64 - 1)) = Inr (h, t')"
      "sv0key (get t' h) = sv0key (JBigInt (2 ^ 64 - 1))" by blast
  from a(2) have "get t' h = JBigInt (2 ^ 64 - 1)" by (rule sv0key_bigint)
  moreover have "emlite_val_make_biguint t (- 1) = Inr (h, t')"
    using a(1) by (simp add: emlite_val_make_biguint_def Let_def)
  ultimately show "\<exists>h t'. emlite_val_make_biguint t (- 1) = Inr (h, t') \<and>
            get t' h = JBigInt (2 ^ 64 - 1)" by blast
qed

theorem make_biguint_normalizes_witness:
  "table_inv EMLITE_VALMAP0 \<and>
   (\<exists>h t'. emlite_val_make_biguint EMLITE_VALMAP0 (- 3) = Inr (h, t') \<and>
      get t' h = JBigInt 18446744073709551613) \<and>
   (\<exists>h t'. emlite_val_make_biguint EMLITE_VALMAP0 (- 1) = Inr (h, t') \<and>
      get t' h = JBigInt 18446744073709551615)"
proof -
  have "- (2 ^ 63) \<le> (- 3 :: int)" "(- 3 :: int) < 2 ^ 63" by simp_all
  from make_biguint_normalizes [OF table_inv_init this]
  have "(\<exists>h t'. emlite_val_make_biguint EMLITE_VALMAP0 (- 3) = Inr (h, t') \<and>
            get t' h = JBigInt 18446744073709551613 \<and>
            (\<exists>y. get t' h = JBigInt y \<and> 0 \<le> y \<and> y \<le> 2 ^ 64 - 1)) \<and>
         (\<exists>h t'. emlite_val_make_biguint EMLITE_VALMAP0 (- 1) = Inr (h, t') \<and>
            get t' h = JBigInt 18446744073709551615)" by simp
  with table_inv_init show ?thesis by blast
qed

section \<open>Reset\<close>

lemma reset_loop:
  assumes "table_inv t" "distinct ks" "\<forall>h\<in>set ks. bound < h \<longrightarrow> map_of (h2e t) h \<noteq> None"
  shows "\<exists>t'. foldl (reset_step bound) (Inr t) ks = Inr t' \<and> table_inv t' \<and>
           next_handle t' = next_handle t \<and>
           (\<forall>h. map_of (h2e t') h = (if h \<in> set ks \<and> bound < h then None else map_of (h2e t) h))"
  using assms
proof (induction ks arbitrary: t)
  case Nil
  then show ?case by simp
next
  case (Cons k ks)
  show ?case
  proof (cases "bound < k")
    case False
    then have s: "reset_step bound (Inr t) k = Inr t" by (simp add: reset_step_def thenE_def)
    from Cons.prems have "\<forall>h\<in>set ks. bound < h \<longrightarrow> map_of (h2e t) h \<noteq> None" "distinct ks"
      by simp_all
    from Cons.IH [OF Cons.prems(1) this(2) this(1)] s False show ?thesis by auto
  next
    case True
    with Cons.prems(3) obtain e where e: "map_of (h2e t) k = Some e" by auto
    let ?t = "t\<lparr>h2e := AList.delete k (h2e t), v2h := AList.delete (sv0key (val e)) (v2h t)\<rparr>"
    have s: "reset_step bound (Inr t) k = Inr ?t"
      using True e by (simp add: reset_step_def thenE_def)
    have i: "table_inv ?t" by (rule table_inv_evict [OF Cons.prems(1) e])
    have d: "distinct ks" and nk: "k \<notin> set ks" using Cons.prems(2) by simp_all
    have p: "\<forall>h\<in>set ks. bound < h \<longrightarrow> map_of (h2e ?t) h \<noteq> None"
      using Cons.prems(3) nk by (auto simp: delete_conv')
    from Cons.IH [OF i d p] obtain t' where t': "foldl (reset_step bound) (Inr ?t) ks = Inr t'"
      "table_inv t'" "next_handle t' = next_handle ?t"
      "\<forall>h. map_of (h2e t') h = (if h \<in> set ks \<and> bound < h then None else map_of (h2e ?t) h)"
      by blast
    have "\<forall>h. map_of (h2e t') h = (if h \<in> set (k # ks) \<and> bound < h then None else map_of (h2e t) h)"
      using t'(4) True by (auto simp: delete_conv')
    with t'(1,2,3) s show ?thesis by simp
  qed
qed

lemma reset_above_result:
  assumes "table_inv t"
  shows "\<exists>t'. reset_above bound t = Inr t' \<and> table_inv t' \<and> next_handle t' = next_handle t \<and>
           (\<forall>h. map_of (h2e t') h = (if bound < h then None else map_of (h2e t) h))"
proof -
  have d: "distinct (map fst (h2e t))" using assms by (simp add: table_inv_def)
  have p: "\<forall>h\<in>set (map fst (h2e t)). bound < h \<longrightarrow> map_of (h2e t) h \<noteq> None"
    by (auto simp: map_of_eq_None_iff)
  from reset_loop [OF assms d p] obtain t' where t':
    "foldl (reset_step bound) (Inr t) (map fst (h2e t)) = Inr t'" "table_inv t'"
    "next_handle t' = next_handle t"
    "\<forall>h. map_of (h2e t') h =
       (if h \<in> set (map fst (h2e t)) \<and> bound < h then None else map_of (h2e t) h)"
    by blast
  have "map_of (h2e t') h = (if bound < h then None else map_of (h2e t) h)" for h
  proof -
    have "h \<in> set (map fst (h2e t)) \<longleftrightarrow> map_of (h2e t) h \<noteq> None"
      by (simp add: map_of_eq_None_iff)
    with t'(4) show ?thesis by (cases "map_of (h2e t) h") simp_all
  qed
  with t'(1,2,3) show ?thesis by (auto simp: reset_above_def)
qed

lemma table_inv_fresh_handle:
  assumes "table_inv t" "next_handle t \<le> h"
  shows "map_of (h2e t) h = None"
proof (cases "map_of (h2e t) h")
  case (Some e)
  with assms(1) have "h < next_handle t" unfolding table_inv_def by blast
  with assms(2) show ?thesis by simp
qed simp

text \<open>
  \<open>emlite_reset_object_map\<close> of \<open>src/emlite.js\<close> (bound 6): it returns, every handle
  above 6 is gone, the handles up to 6 are as before, the counter is as before, so the
  next new value gets a handle above every handle that was live.
\<close>

lemma reset_semantics:
  assumes "table_inv t"
  shows "\<exists>t'. emlite_reset_object_map t = Inr t' \<and>
           (\<forall>h. 6 < h \<longrightarrow> get t' h = JUndefined \<and> refs_of t' h = None) \<and>
           (\<forall>h. h \<le> 6 \<longrightarrow> get t' h = get t h \<and> refs_of t' h = refs_of t h) \<and>
           next_handle t' = next_handle t \<and>
           (\<forall>h. refs_of t h \<noteq> None \<longrightarrow> h < next_handle t') \<and>
           (\<forall>v. \<not> has t' v \<longrightarrow> (\<exists>t''. add t' v = Inr (next_handle t, t'')))"
proof -
  from reset_above_result [OF assms, of 6] obtain t' where t':
    "reset_above 6 t = Inr t'" "table_inv t'" "next_handle t' = next_handle t"
    "\<forall>h. map_of (h2e t') h = (if 6 < h then None else map_of (h2e t) h)" by blast
  have live: "h < next_handle t'" if "refs_of t h \<noteq> None" for h
  proof (rule ccontr)
    assume "\<not> h < next_handle t'"
    with t'(3) have "next_handle t \<le> h" by simp
    from table_inv_fresh_handle [OF assms this] that show False by (simp add: refs_of_def)
  qed
  have new: "\<exists>t''. add t' v = Inr (next_handle t, t'')" if "\<not> has t' v" for v
    using that t'(3) by (simp add: has_def add_def newEntry_def Let_def)
  from t' live new show ?thesis
    by (auto simp: emlite_reset_object_map_def get_def refs_of_def)
qed

text \<open>
  C6. After \<open>emlite_reset_object_map\<close> the handles \<open>0..6\<close> still hold their
  singletons. The copy of version 1024 removes every handle above 5: right after
  initialisation its reset evicts handle 6, the reserved marker, and \<open>get(6)\<close> is
  \<open>undefined\<close> from then on.
\<close>

theorem reset_1024_evicts_marker:
  "\<exists>t'. emlite_reset_object_map_1024 EMLITE_VALMAP0 = Inr t' \<and>
      get EMLITE_VALMAP0 6 = EMLITE_RESERVED \<and> refs_of EMLITE_VALMAP0 6 = Some 1 \<and>
      get t' 6 = JUndefined \<and> refs_of t' 6 = None \<and> get t' 6 \<noteq> get EMLITE_VALMAP0 6"
  by (simp add: emlite_reset_object_map_1024_def reset_above_def reset_step_def thenE_def
      EMLITE_VALMAP0_def get_def refs_of_def EMLITE_RESERVED_def globalThis_def console_def
      sv0key_def)

section \<open>Reserved handles and stale handles\<close>

text \<open>The reserved entries: handles 0..6 hold the singletons.\<close>

definition reserved_bound :: "HandleTable \<Rightarrow> bool" where
  "reserved_bound t \<longleftrightarrow>
     list_all (\<lambda>i. get t (int i) = singletons ! i \<and> refs_of t (int i) \<noteq> None) [0..<7]"

lemma reserved_bound_init: "reserved_bound EMLITE_VALMAP0"
  by (simp add: reserved_bound_def upt_rec get_def refs_of_def EMLITE_VALMAP0_def singletons_def)

lemma reserved_boundI:
  assumes "reserved_bound t"
    and "\<And>h. h \<le> 6 \<Longrightarrow> refs_of t h \<noteq> None \<Longrightarrow> get t' h = get t h \<and> refs_of t' h \<noteq> None"
  shows "reserved_bound t'"
  using assms unfolding reserved_bound_def list_all_iff by auto

lemma add_keeps:
  assumes "table_inv t" "add t v = Inr (h, t')" "refs_of t i \<noteq> None"
  shows "get t' i = get t i \<and> refs_of t' i \<noteq> None"
proof (cases "map_of (v2h t) (sv0key v)")
  case None
  from assms(3) have "i \<noteq> next_handle t"
    using table_inv_fresh_handle [OF assms(1), of "next_handle t"] by (auto simp: refs_of_def)
  with None assms(2,3) show ?thesis
    by (auto simp: add_def newEntry_def Let_def get_def refs_of_def update_conv')
next
  case (Some k)
  with assms(2,3) show ?thesis
    by (auto simp: add_def get_def refs_of_def update_conv' split: option.splits if_splits)
qed

lemma incRef_keeps: "refs_of t i \<noteq> None \<Longrightarrow> get (incRef t h) i = get t i \<and> refs_of (incRef t h) i \<noteq> None"
  by (auto simp: incRef_def get_def refs_of_def update_conv' split: option.splits)

lemma dec_ref_keeps:
  "i \<le> 6 \<Longrightarrow> refs_of t i \<noteq> None \<Longrightarrow>
   get (emlite_val_dec_ref t h) i = get t i \<and> refs_of (emlite_val_dec_ref t h) i \<noteq> None"
  by (auto simp: emlite_val_dec_ref_def decRef_def get_def refs_of_def update_conv' delete_conv'
      split: option.splits)

lemma reachable_inv: "reachable t \<Longrightarrow> table_inv t \<and> reserved_bound t"
proof (induction rule: reachable.induct)
  case init
  show ?case by (simp add: table_inv_init reserved_bound_init)
next
  case (added t v h t')
  then have i: "table_inv t" and r: "reserved_bound t" by simp_all
  have "reserved_bound t'"
    by (rule reserved_boundI [OF r]) (rule add_keeps [OF i added.hyps(2)])
  with table_inv_add [OF i added.hyps(2)] show ?case by simp
next
  case (inc_ref t h)
  then have i: "table_inv t" and r: "reserved_bound t" by simp_all
  have "reserved_bound (incRef t h)"
    by (rule reserved_boundI [OF r]) (rule incRef_keeps)
  with table_inv_incRef [OF i] show ?case by (simp add: emlite_val_inc_ref_def)
next
  case (dec_ref t h)
  then have i: "table_inv t" and r: "reserved_bound t" by simp_all
  have "reserved_bound (emlite_val_dec_ref t h)"
    by (rule reserved_boundI [OF r]) (rule dec_ref_keeps)
  with table_inv_dec_ref [OF i] show ?case by simp
next
  case (reset t t')
  then have i: "table_inv t" and r: "reserved_bound t" by simp_all
  from reset_above_result [OF i, of 6] reset.hyps(2) have "table_inv t'"
    and m: "\<forall>h. map_of (h2e t') h = (if 6 < h then None else map_of (h2e t) h)"
    by (auto simp: emlite_reset_object_map_def)
  moreover have "reserved_bound t'"
    by (rule reserved_boundI [OF r]) (simp add: get_def refs_of_def m)
  ultimately show ?case by simp
qed

lemma reserved_undefined: "reserved_bound t \<Longrightarrow> get t 1 = JUndefined \<and> refs_of t 1 \<noteq> None"
  by (simp add: reserved_bound_def upt_rec singletons_def)

text \<open>
  C10. In every table the bridge can reach, \<open>get(h)\<close> of a handle \<open>h\<close> without a
  live entry is \<open>undefined\<close>, the value that the live reserved handle 1 holds; the
  extraction and predicate operations give the same result for \<open>h\<close> as for handle 1.
\<close>

theorem stale_handle_is_undefined:
  assumes "reachable t" "refs_of t h = None"
  shows "get t h = JUndefined \<and> get t 1 = JUndefined \<and> refs_of t 1 \<noteq> None \<and>
         emlite_val_get_value_int H t h = emlite_val_get_value_int H t 1 \<and>
         emlite_val_get_value_uint H t h = emlite_val_get_value_uint H t 1 \<and>
         emlite_val_get_value_bool t h = emlite_val_get_value_bool t 1 \<and>
         emlite_val_not t h = emlite_val_not t 1 \<and>
         emlite_val_is_string H t h = emlite_val_is_string H t 1 \<and>
         emlite_val_is_number H t h = emlite_val_is_number H t 1 \<and>
         emlite_val_is_bool H t h = emlite_val_is_bool H t 1 \<and>
         (\<forall>b. emlite_val_strictly_equals t h b = emlite_val_strictly_equals t 1 b)"
proof -
  from assms(2) have a: "get t h = JUndefined"
    by (simp add: get_def refs_of_def split: option.splits)
  from reachable_inv [OF assms(1)] have b: "get t 1 = JUndefined" "refs_of t 1 \<noteq> None"
    using reserved_undefined by blast+
  from a b show ?thesis
    by (simp add: emlite_val_get_value_int_def emlite_val_get_value_uint_def
        emlite_val_get_value_bool_def emlite_val_not_def emlite_val_is_string_def
        emlite_val_is_number_def emlite_val_is_bool_def emlite_val_strictly_equals_def)
qed

theorem stale_handle_is_undefined_witness:
  "reachable EMLITE_VALMAP0 \<and> refs_of EMLITE_VALMAP0 99 = None \<and>
   get EMLITE_VALMAP0 99 = JUndefined \<and> get EMLITE_VALMAP0 1 = JUndefined \<and>
   refs_of EMLITE_VALMAP0 1 \<noteq> None \<and>
   (\<forall>H. emlite_val_get_value_int H EMLITE_VALMAP0 99 = emlite_val_get_value_int H EMLITE_VALMAP0 1)"
proof -
  have r: "refs_of EMLITE_VALMAP0 99 = None"
    by (simp add: refs_of_def EMLITE_VALMAP0_def)
  from stale_handle_is_undefined [OF reachable.init r] r reachable.init show ?thesis by blast
qed

section \<open>The UTF-8 decoder inverts the encoder\<close>

text \<open>A scalar value: a code point that is not a surrogate.\<close>

definition scalar :: "nat \<Rightarrow> bool" where
  "scalar c \<longleftrightarrow> c < 0x110000 \<and> \<not> is_surrogate c"

lemma utf8_ascii:
  "b \<le> 0x7F \<Longrightarrow> utf8_decode utf8_initial (b # bs) = b # utf8_decode utf8_initial bs"
  by (simp add: utf8_initial_def)

lemma utf8_lead2:
  "0xC2 \<le> b \<Longrightarrow> b \<le> 0xDF \<Longrightarrow>
   utf8_decode utf8_initial (b # bs) =
   utf8_decode \<lparr>code_point = b mod 32, bytes_seen = 0, bytes_needed = 1,
                 lower_boundary = 0x80, upper_boundary = 0xBF\<rparr> bs"
  by (simp add: utf8_initial_def)

lemma utf8_lead3:
  "0xE0 \<le> b \<Longrightarrow> b \<le> 0xEF \<Longrightarrow>
   utf8_decode utf8_initial (b # bs) =
   utf8_decode \<lparr>code_point = b mod 16, bytes_seen = 0, bytes_needed = 2,
                 lower_boundary = (if b = 0xE0 then 0xA0 else 0x80),
                 upper_boundary = (if b = 0xED then 0x9F else 0xBF)\<rparr> bs"
  by (simp add: utf8_initial_def)

lemma utf8_lead4:
  "0xF0 \<le> b \<Longrightarrow> b \<le> 0xF4 \<Longrightarrow>
   utf8_decode utf8_initial (b # bs) =
   utf8_decode \<lparr>code_point = b mod 8, bytes_seen = 0, bytes_needed = 3,
                 lower_boundary = (if b = 0xF0 then 0x90 else 0x80),
                 upper_boundary = (if b = 0xF4 then 0x8F else 0xBF)\<rparr> bs"
  by (simp add: utf8_initial_def)

lemma utf8_continue:
  "lo \<le> b \<Longrightarrow> b \<le> hi \<Longrightarrow> Suc seen \<noteq> needed \<Longrightarrow> needed \<noteq> 0 \<Longrightarrow>
   utf8_decode \<lparr>code_point = cp, bytes_seen = seen, bytes_needed = needed,
                 lower_boundary = lo, upper_boundary = hi\<rparr> (b # bs) =
   utf8_decode \<lparr>code_point = cp * 64 + b mod 64, bytes_seen = Suc seen, bytes_needed = needed,
                 lower_boundary = 0x80, upper_boundary = 0xBF\<rparr> bs"
  by (simp add: Let_def)

lemma utf8_last:
  "lo \<le> b \<Longrightarrow> b \<le> hi \<Longrightarrow> Suc seen = needed \<Longrightarrow>
   utf8_decode \<lparr>code_point = cp, bytes_seen = seen, bytes_needed = needed,
                 lower_boundary = lo, upper_boundary = hi\<rparr> (b # bs) =
   (cp * 64 + b mod 64) # utf8_decode utf8_initial bs"
  by (auto simp: Let_def)

lemma mod_offset: "m < b \<Longrightarrow> (k * b + m) mod b = (m::nat)"
  by simp

lemma continuation_mod: "m < 64 \<Longrightarrow> (0x80 + m) mod 64 = (m::nat)"
  using mod_offset [of m 64 2] by simp

lemma lead_mod:
  "y < 32 \<Longrightarrow> (0xC0 + y) mod 32 = (y::nat)"
  "y < 16 \<Longrightarrow> (0xE0 + y) mod 16 = (y::nat)"
  "y < 8 \<Longrightarrow> (0xF0 + y) mod 8 = (y::nat)"
  using mod_offset [of y 32 6] mod_offset [of y 16 14] mod_offset [of y 8 30] by simp_all

declare utf8_decode.simps [simp del]

lemma div_4096: "(c::nat) div 4096 = c div 64 div 64"
  by (simp add: div_mult2_eq [symmetric])

lemma div_262144: "(c::nat) div 262144 = c div 64 div 64 div 64"
  by (simp add: div_mult2_eq [symmetric])

lemma continuation_range: "m < 64 \<Longrightarrow> 0x80 \<le> 0x80 + m" "m < 64 \<Longrightarrow> 0x80 + m \<le> (0xBF::nat)"
  by simp_all

lemma utf8_decode_bytes:
  assumes "scalar c"
  shows "utf8_decode utf8_initial (utf8_bytes c @ rest) = c # utf8_decode utf8_initial rest"
proof -
  define x m3 y m2 z m1 where "x = c div 64" and "m3 = c mod 64" and "y = x div 64"
    and "m2 = x mod 64" and "z = y div 64" and "m1 = y mod 64"
  have d: "c = x * 64 + m3" "m3 < 64" "x = y * 64 + m2" "m2 < 64" "y = z * 64 + m1" "m1 < 64"
    by (simp_all add: x_def m3_def y_def m2_def z_def m1_def)
  note c3 = continuation_range [OF d(2)] continuation_mod [OF d(2)]
    and c2 = continuation_range [OF d(4)] continuation_mod [OF d(4)]
    and c1 = continuation_range [OF d(6)] continuation_mod [OF d(6)]
  consider "c \<le> 0x7F" | "0x7F < c" "c \<le> 0x7FF" | "0x7FF < c" "c \<le> 0xFFFF" | "0xFFFF < c"
    by linarith
  then show ?thesis
  proof cases
    case 1
    then show ?thesis by (simp add: utf8_bytes_def utf8_ascii)
  next
    case 2
    have b: "utf8_bytes c = [0xC0 + x, 0x80 + m3]"
      using 2 by (simp add: utf8_bytes_def x_def m3_def)
    have x: "2 \<le> x" "x < 32" using d(1,2) 2 by linarith+
    then have r1: "0xC2 \<le> 0xC0 + x" "0xC0 + x \<le> 0xDF" "(0xC0 + x) mod 32 = x"
      by (simp_all add: lead_mod)
    have "utf8_decode utf8_initial ((0xC0 + x) # (0x80 + m3) # rest) =
        (x * 64 + m3) # utf8_decode utf8_initial rest"
      by (simp add: utf8_lead2 [OF r1(1,2)] utf8_last [OF c3(1,2)] r1(3) c3(3))
    then show ?thesis unfolding b using d(1) by simp
  next
    case 3
    from assms have ns: "c < 0xD800 \<or> 0xDFFF < c" by (auto simp: scalar_def is_surrogate_def)
    have b: "utf8_bytes c = [0xE0 + y, 0x80 + m2, 0x80 + m3]"
      using 3 by (simp add: utf8_bytes_def div_4096 x_def m3_def y_def m2_def)
    have y: "y < 16" using d(1-4) 3 by linarith
    have lo: "y = 0 \<Longrightarrow> 32 \<le> m2" using d(1-4) 3 by linarith
    have hi: "y = 13 \<Longrightarrow> m2 < 32" using d(1-4) ns by linarith
    from y have r1: "0xE0 \<le> 0xE0 + y" "0xE0 + y \<le> 0xEF" "(0xE0 + y) mod 16 = y"
      by (simp_all add: lead_mod)
    have r2: "(if 0xE0 + y = 0xE0 then 0xA0 else 0x80) \<le> 0x80 + m2"
      "0x80 + m2 \<le> (if 0xE0 + y = 0xED then 0x9F else 0xBF)"
      using lo hi d(4) by (auto split: if_splits)
    have "utf8_decode utf8_initial ((0xE0 + y) # (0x80 + m2) # (0x80 + m3) # rest) =
        ((y * 64 + m2) * 64 + m3) # utf8_decode utf8_initial rest"
      by (subst utf8_lead3 [OF r1(1,2)], subst utf8_continue [OF r2], simp, simp,
          subst utf8_last [OF c3(1,2)], simp, simp add: r1(3) c2(3) c3(3))
    then show ?thesis unfolding b using d(1,3) by simp
  next
    case 4
    from assms have lt: "c < 0x110000" by (simp add: scalar_def)
    have b: "utf8_bytes c = [0xF0 + z, 0x80 + m1, 0x80 + m2, 0x80 + m3]"
      using 4 by (simp add: utf8_bytes_def div_4096 div_262144 x_def m3_def y_def m2_def z_def m1_def)
    have z: "z < 5" using d 4 lt by linarith
    have lo: "z = 0 \<Longrightarrow> 16 \<le> m1" using d 4 by linarith
    have hi: "z = 4 \<Longrightarrow> m1 < 16" using d lt by linarith
    from z have r1: "0xF0 \<le> 0xF0 + z" "0xF0 + z \<le> 0xF4" "(0xF0 + z) mod 8 = z"
      by (simp_all add: lead_mod)
    have r2: "(if 0xF0 + z = 0xF0 then 0x90 else 0x80) \<le> 0x80 + m1"
      "0x80 + m1 \<le> (if 0xF0 + z = 0xF4 then 0x8F else 0xBF)"
      using lo hi d(6) by (auto split: if_splits)
    have "utf8_decode utf8_initial ((0xF0 + z) # (0x80 + m1) # (0x80 + m2) # (0x80 + m3) # rest) =
        (((z * 64 + m1) * 64 + m2) * 64 + m3) # utf8_decode utf8_initial rest"
      by (subst utf8_lead4 [OF r1(1,2)], subst utf8_continue [OF r2], simp, simp,
          subst utf8_continue [OF c2(1,2)], simp, simp, subst utf8_last [OF c3(1,2)], simp,
          simp add: r1(3) c1(3) c2(3) c3(3))
    then show ?thesis unfolding b using d(1,3,5) by simp
  qed
qed

lemma utf8_decode_encode:
  "\<forall>c\<in>set cs. scalar c \<Longrightarrow> utf8_decode utf8_initial (concat (map utf8_bytes cs)) = cs"
proof (induction cs)
  case Nil
  show ?case by (simp add: utf8_decode.simps utf8_initial_def)
next
  case (Cons c cs)
  then show ?case by (simp add: utf8_decode_bytes)
qed

lemma utf8_bytes_small: "scalar c \<Longrightarrow> b \<in> set (utf8_bytes c) \<Longrightarrow> b < 256"
proof -
  assume s: "scalar c" and b: "b \<in> set (utf8_bytes c)"
  have m: "k mod 64 < (64::nat)" for k by simp
  have "c div 64 < 32" if "c \<le> 0x7FF" using that by (simp add: less_mult_imp_div_less)
  moreover have "c div 4096 < 16" if "c \<le> 0xFFFF" using that by (simp add: less_mult_imp_div_less)
  moreover have "c div 262144 < 5" using s by (simp add: scalar_def less_mult_imp_div_less)
  ultimately show ?thesis
    using b m [of c] m [of "c div 64"] m [of "c div 4096"]
    by (auto simp: utf8_bytes_def split: if_splits)
qed

section \<open>Strings as scalar values\<close>

text \<open>A string of code units is well formed when every surrogate is part of a pair.\<close>

fun well_formed :: "nat list \<Rightarrow> bool" where
  "well_formed [] = True"
| "well_formed [c] = (\<not> is_surrogate c)"
| "well_formed (c # d # r) =
     (if is_lead c \<and> is_trail d then well_formed r
      else \<not> is_surrogate c \<and> well_formed (d # r))"

lemma not_trail_0 [simp]: "\<not> is_trail 0" "\<not> is_surrogate 0" "\<not> is_lead 0"
  by (simp_all add: is_trail_def is_surrogate_def is_lead_def)

lemma lead_surrogate: "is_lead c \<Longrightarrow> is_surrogate c"
  by (simp add: is_lead_def is_surrogate_def)

lemma trail_surrogate: "is_trail c \<Longrightarrow> is_surrogate c"
  by (simp add: is_trail_def is_surrogate_def)

lemma surrogate_cases: "is_surrogate c \<longleftrightarrow> is_lead c \<or> is_trail c"
  by (auto simp: is_lead_def is_trail_def is_surrogate_def)

lemma usv_append_zero: "usv (u @ [0]) = usv u @ [0]"
  by (induction u rule: usv.induct) simp_all

lemma pair_scalar:
  assumes "is_lead c" "is_trail d"
  shows "scalar (0x10000 + (c - 0xD800) * 0x400 + (d - 0xDC00))"
    and "0x10000 \<le> 0x10000 + (c - 0xD800) * 0x400 + (d - 0xDC00)"
proof -
  define a b where "a = c - 0xD800" and "b = d - 0xDC00"
  have "a \<le> 0x3FF" "b \<le> 0x3FF"
    using assms unfolding a_def b_def is_lead_def is_trail_def by linarith+
  then have "a * 0x400 + b < 0x100000" by linarith
  then show "scalar (0x10000 + (c - 0xD800) * 0x400 + (d - 0xDC00))"
    by (simp add: scalar_def is_surrogate_def a_def b_def)
  show "0x10000 \<le> 0x10000 + (c - 0xD800) * 0x400 + (d - 0xDC00)" by simp
qed

lemma scalar_FFFD: "scalar 0xFFFD"
  by (simp add: scalar_def is_surrogate_def)

lemma unit_scalar: "c < 65536 \<Longrightarrow> \<not> is_surrogate c \<Longrightarrow> scalar c"
  by (simp add: scalar_def)

lemma usv_scalar: "\<forall>c\<in>set u. c < 65536 \<Longrightarrow> \<forall>p\<in>set (usv u). scalar p"
proof (induction u rule: usv.induct)
  case 1
  show ?case by simp
next
  case (2 c)
  then show ?case by (simp add: scalar_FFFD unit_scalar)
next
  case (3 c d r)
  then show ?case
    by (auto simp: scalar_FFFD pair_scalar(1) unit_scalar)
qed

lemma code_units_pair:
  assumes "is_lead c" "is_trail d"
  shows "code_units (0x10000 + (c - 0xD800) * 0x400 + (d - 0xDC00)) = [c, d]"
proof -
  define a b where "a = c - 0xD800" and "b = d - 0xDC00"
  have ab: "c = 0xD800 + a" "d = 0xDC00 + b" "b < 0x400"
    using assms unfolding a_def b_def is_lead_def is_trail_def by linarith+
  have "(a * 0x400 + b) div 0x400 = a" "(a * 0x400 + b) mod 0x400 = b"
    using ab(3) by simp_all
  then show ?thesis
    unfolding ab(1,2) by (simp add: code_units_def)
qed

lemma code_units_small: "c < 65536 \<Longrightarrow> code_units c = [c]"
  by (simp add: code_units_def)

lemma usv_well_formed:
  "well_formed u \<Longrightarrow> \<forall>c\<in>set u. c < 65536 \<Longrightarrow> concat (map code_units (usv u)) = u"
proof (induction u rule: usv.induct)
  case 1
  show ?case by simp
next
  case (2 c)
  then show ?case by (simp add: code_units_small)
next
  case (3 c d r)
  show ?case
  proof (cases "is_lead c \<and> is_trail d")
    case True
    with 3 show ?thesis by (simp add: code_units_pair)
  next
    case False
    with "3.prems" have ns: "\<not> is_surrogate c" and wf: "well_formed (d # r)" by simp_all
    from "3.IH"(3) [OF False ns wf] "3.prems"(2)
    have "concat (map code_units (usv (d # r))) = d # r" by simp
    moreover from ns have "\<not> is_lead c" by (auto dest: lead_surrogate)
    ultimately show ?thesis using ns "3.prems"(2) by (simp add: code_units_small)
  qed
qed

lemma usv_no_BOM:
  assumes "well_formed u" "u = [] \<or> hd u \<noteq> 0xFEFF"
  shows "strip_BOM (usv u) = usv u"
proof (cases u rule: usv.cases)
  case 1
  then show ?thesis by (simp add: strip_BOM_def)
next
  case (2 c)
  with assms show ?thesis by (simp add: strip_BOM_def)
next
  case (3 c d r)
  show ?thesis
  proof (cases "is_lead c \<and> is_trail d")
    case True
    with pair_scalar(2) [of c d] have "0x10000 + (c - 0xD800) * 0x400 + (d - 0xDC00) \<noteq> 0xFEFF"
      by simp
    with True 3 show ?thesis by (simp add: strip_BOM_def)
  next
    case False
    with assms 3 show ?thesis by (simp add: strip_BOM_def)
  qed
qed

section \<open>The UTF-16LE decoder on whole code units\<close>

text \<open>The bytes of a sequence of code units, low byte first.\<close>

definition le_bytes :: "nat list \<Rightarrow> nat list" where
  "le_bytes u = concat (map (\<lambda>c. [c mod 256, c div 256]) u)"

lemma usv_Cons_not_lead:
  "\<not> is_lead c \<Longrightarrow> usv (c # u) = (if is_surrogate c then 0xFFFD else c) # usv u"
  by (cases u) simp_all

lemma usv_Cons_lead_not_trail:
  "is_lead s \<Longrightarrow> \<not> is_trail c \<Longrightarrow> usv (s # c # u) = 0xFFFD # usv (c # u)"
  by (simp add: lead_surrogate)

lemma utf16le_unit:
  "utf16le_decode None ls (c mod 256 # c div 256 # bs) =
     (case ls of
        Some s \<Rightarrow>
          if is_trail c
          then (0x10000 + (s - 0xD800) * 0x400 + (c - 0xDC00)) # utf16le_decode None None bs
          else 0xFFFD # utf16le_decode None None (c mod 256 # c div 256 # bs)
      | None \<Rightarrow>
          if is_lead c then utf16le_decode None (Some c) bs
          else if is_trail c then 0xFFFD # utf16le_decode None None bs
          else c # utf16le_decode None None bs)"
proof -
  have "c div 256 * 256 + c mod 256 = c" by simp
  then show ?thesis by (simp add: Let_def)
qed

declare utf16le_decode.simps [simp del]

lemma utf16le_step_None:
  "utf16le_decode None None (c mod 256 # c div 256 # bs) =
     (if is_lead c then utf16le_decode None (Some c) bs
      else if is_trail c then 0xFFFD # utf16le_decode None None bs
      else c # utf16le_decode None None bs)"
  by (subst utf16le_unit) simp

lemma utf16le_step_Some:
  "utf16le_decode None (Some s) (c mod 256 # c div 256 # bs) =
     (if is_trail c
      then (0x10000 + (s - 0xD800) * 0x400 + (c - 0xDC00)) # utf16le_decode None None bs
      else 0xFFFD # utf16le_decode None None (c mod 256 # c div 256 # bs))"
  by (subst utf16le_unit) simp

lemma utf16le_decode_units:
  "utf16le_decode None None (le_bytes u) = usv u \<and>
   (\<forall>s. is_lead s \<longrightarrow> utf16le_decode None (Some s) (le_bytes u) = usv (s # u))"
proof (induction u)
  case Nil
  show ?case by (simp add: le_bytes_def utf16le_decode.simps lead_surrogate)
next
  case (Cons c u)
  have b: "le_bytes (c # u) = c mod 256 # c div 256 # le_bytes u" by (simp add: le_bytes_def)
  from Cons.IH have ih1: "utf16le_decode None None (le_bytes u) = usv u"
    and ih2: "\<And>s. is_lead s \<Longrightarrow> utf16le_decode None (Some s) (le_bytes u) = usv (s # u)"
    by blast+
  have P: "utf16le_decode None None (le_bytes (c # u)) = usv (c # u)"
  proof (cases "is_lead c")
    case True
    then show ?thesis by (simp only: b utf16le_step_None ih2 if_True)
  next
    case False
    have "utf16le_decode None None (le_bytes (c # u)) =
        (if is_trail c then 0xFFFD else c) # usv u"
      using False by (simp only: b utf16le_step_None ih1 if_False) simp
    moreover have "is_surrogate c \<longleftrightarrow> is_trail c" using False by (simp add: surrogate_cases)
    ultimately show ?thesis by (simp only: usv_Cons_not_lead [OF False])
  qed
  have Q: "utf16le_decode None (Some s) (le_bytes (c # u)) = usv (s # c # u)" if s: "is_lead s" for s
  proof (cases "is_trail c")
    case True
    with s have "usv (s # c # u) = (0x10000 + (s - 0xD800) * 0x400 + (c - 0xDC00)) # usv u" by simp
    with True show ?thesis by (simp only: b utf16le_step_Some ih1 if_True)
  next
    case False
    have "utf16le_decode None (Some s) (le_bytes (c # u)) =
        0xFFFD # utf16le_decode None None (le_bytes (c # u))"
      using False by (simp only: b utf16le_step_Some if_False)
    with P show ?thesis by (simp only: usv_Cons_lead_not_trail [OF s False])
  qed
  from P Q show ?case by blast
qed

section \<open>Decoding what was written\<close>

lemma map_unat_of_nat:
  "\<forall>b\<in>set bs. b < 256 \<Longrightarrow> map unat (map of_nat bs :: 8 word list) = bs"
  by (induction bs) (simp_all add: unat_of_nat)

lemma map_of_nat_unat: "map of_nat (map unat s) = (s :: 16 word list)"
  by (induction s) simp_all

lemma units_16: "\<forall>c\<in>set (map unat (s :: 16 word list)). c < 65536"
proof
  fix c assume "c \<in> set (map unat s)"
  then obtain w :: "16 word" where "c = unat w" by auto
  moreover have "unat w < 2 ^ LENGTH(16)" by (rule unsigned_less)
  ultimately show "c < 65536" by simp
qed

lemma utf8_all_small:
  assumes "\<forall>p\<in>set cs. scalar p"
  shows "\<forall>b\<in>set (concat (map utf8_bytes cs)). b < 256"
  using assms by (auto dest: utf8_bytes_small)

text \<open>
  Decoding what was encoded gives the scalar values of the string, without a leading
  U+FEFF.
\<close>

lemma dec_decode_enc_encode:
  "dec_decode (enc_encode s) = to_jsstring (strip_BOM (usv (map unat s)))"
proof -
  have sc: "\<forall>p\<in>set (usv (map unat s)). scalar p" by (rule usv_scalar [OF units_16])
  have "map unat (enc_encode s) = concat (map utf8_bytes (usv (map unat s)))"
    unfolding enc_encode_def by (rule map_unat_of_nat [OF utf8_all_small [OF sc]])
  then show ?thesis by (simp add: dec_decode_def utf8_decode_encode [OF sc])
qed

lemma to_jsstring_usv:
  "well_formed (map unat s) \<Longrightarrow> to_jsstring (usv (map unat s)) = s"
  by (simp only: to_jsstring_def usv_well_formed [OF _ units_16] map_of_nat_unat)

lemma hd_map_unat:
  assumes "s \<noteq> []" "hd s \<noteq> (0xFEFF :: 16 word)"
  shows "map unat s = [] \<or> hd (map unat s) \<noteq> 0xFEFF"
proof -
  have "unat (hd s) \<noteq> 0xFEFF"
  proof
    assume "unat (hd s) = 0xFEFF"
    then have "of_nat (unat (hd s)) = (of_nat 0xFEFF :: 16 word)" by (rule arg_cong)
    with assms(2) show False by simp
  qed
  with assms(1) show ?thesis by (simp add: hd_map)
qed

lemma dec_decode_roundtrip:
  assumes "well_formed (map unat s)" "s \<noteq> []" "hd s \<noteq> 0xFEFF"
  shows "dec_decode (enc_encode s) = s"
  by (simp add: dec_decode_enc_encode usv_no_BOM [OF assms(1) hd_map_unat [OF assms(2,3)]]
      to_jsstring_usv [OF assms(1)])

lemma utf8_bytes_0: "utf8_bytes 0 = [0]"
  by (simp add: utf8_bytes_def)

lemma enc_encode_zero: "enc_encode (s @ [0]) = enc_encode s @ [0]"
  by (simp add: enc_encode_def usv_append_zero utf8_bytes_0)

text \<open>What \<open>set\<close> wrote is what \<open>subarray\<close> reads at the same place.\<close>

lemma subarray_exact:
  assumes "0 \<le> p" "p + int n \<le> int (length xs)"
  shows "subarray xs p (p + int n) = take n (drop (nat p) xs)"
proof -
  have "relative_index (int (length xs)) p = nat p"
    using assms by (simp add: relative_index_def min_def)
  moreover have "relative_index (int (length xs)) (p + int n) = nat p + n"
    using assms by (simp add: relative_index_def min_def nat_add_distrib)
  ultimately show ?thesis by (simp add: subarray_def Let_def)
qed

lemma u8_set_subarray:
  assumes "u8_set m bytes p = Inr m'" "n \<le> length bytes"
  shows "subarray (buffer m') p (p + int n) = take n bytes"
proof -
  from assms(1) have r: "0 \<le> p" "p + int (length bytes) \<le> int (length (buffer m))"
    and m': "buffer m' = take (nat p) (buffer m) @ bytes @ drop (nat p + length bytes) (buffer m)"
    by (auto simp: u8_set_def split: if_splits)
  from r have l: "length (take (nat p) (buffer m)) = nat p" by simp
  from r have len: "length (buffer m') = length (buffer m)" unfolding m' by simp
  have "p + int n \<le> int (length (buffer m'))" using r assms(2) len by simp
  from subarray_exact [OF r(1) this]
  have "subarray (buffer m') p (p + int n) = take n (drop (nat p) (buffer m'))" .
  also have "drop (nat p) (buffer m') = bytes @ drop (nat p + length bytes) (buffer m)"
    unfolding m' using l by simp
  finally show ?thesis using assms(2) by simp
qed

lemma u16_store_buffer:
  assumes "views_fresh m" "0 \<le> i" "2 * (nat i + 1) \<le> length (buffer m)"
  shows "u16_store m i c = m\<lparr>buffer := (buffer m)[2 * nat i := of_nat (unat c mod 256),
                                    2 * nat i + 1 := of_nat (unat c div 256)]\<rparr>"
proof -
  from assms(3) have "nat i < length (buffer m) div 2" by simp
  with assms(2) have "i < int (length (buffer m) div 2)" by simp
  with assms(1,2) show ?thesis by (simp add: u16_store_def)
qed

lemma store_units_buffer:
  assumes "views_fresh m" "0 \<le> i" "2 * (nat i + length cs) \<le> length (buffer m)"
  shows "views_fresh (store_units m i cs) \<and>
         length (buffer (store_units m i cs)) = length (buffer m) \<and>
         take (2 * nat i) (buffer (store_units m i cs)) = take (2 * nat i) (buffer m) \<and>
         take (2 * length cs) (drop (2 * nat i) (buffer (store_units m i cs))) =
           map of_nat (le_bytes (map unat cs))"
  using assms
proof (induction cs arbitrary: m i)
  case Nil
  then show ?case by (simp add: le_bytes_def)
next
  case (Cons c cs)
  let ?lo = "of_nat (unat c mod 256) :: 8 word" and ?hi = "of_nat (unat c div 256) :: 8 word"
  let ?k = "2 * nat i"
  define m1 where "m1 = u16_store m i c"
  define b where "b = buffer (store_units m1 (i + 1) cs)"
  from Cons.prems have in1: "2 * (nat i + 1) \<le> length (buffer m)" by simp
  have m1: "m1 = m\<lparr>buffer := (buffer m)[?k := ?lo, ?k + 1 := ?hi]\<rparr>"
    unfolding m1_def by (rule u16_store_buffer [OF Cons.prems(1,2) in1])
  have f1: "views_fresh m1" and l1: "length (buffer m1) = length (buffer m)"
    using Cons.prems(1) by (simp_all add: m1)
  have i1: "0 \<le> i + 1" and n1: "nat (i + 1) = nat i + 1" using Cons.prems(2) by simp_all
  have r1: "2 * (nat (i + 1) + length cs) \<le> length (buffer m1)"
    using Cons.prems(3) by (simp add: n1 l1)
  from Cons.IH [OF f1 i1 r1]
  have ih: "views_fresh (store_units m1 (i + 1) cs)" "length b = length (buffer m)"
    "take (?k + 2) b = take (?k + 2) (buffer m1)"
    "take (2 * length cs) (drop (?k + 2) b) = map of_nat (le_bytes (map unat cs))"
    by (simp_all add: b_def n1 l1)
  have k: "?k < length b" "?k + 1 < length b" using in1 ih(2) by simp_all
  have "b ! ?k = take (?k + 2) b ! ?k" by simp
  also have "\<dots> = buffer m1 ! ?k" unfolding ih(3) by simp
  also have "\<dots> = ?lo" using in1 by (simp add: m1)
  finally have b0: "b ! ?k = ?lo" .
  have "b ! (?k + 1) = take (?k + 2) b ! (?k + 1)" by simp
  also have "\<dots> = buffer m1 ! (?k + 1)" unfolding ih(3) by simp
  also have "\<dots> = ?hi" using in1 by (simp add: m1)
  finally have b1: "b ! (?k + 1) = ?hi" .
  have "take ?k b = take ?k (take (?k + 2) b)" by simp
  also have "\<dots> = take ?k (buffer m1)" unfolding ih(3) by simp
  also have "\<dots> = take ?k (buffer m)" by (simp add: m1)
  finally have t: "take ?k b = take ?k (buffer m)" .
  have "drop ?k b = b ! ?k # drop (Suc ?k) b" using k(1) by (simp add: Cons_nth_drop_Suc)
  also have "drop (Suc ?k) b = b ! (?k + 1) # drop (?k + 2) b"
    using k(2) Cons_nth_drop_Suc [of "?k + 1" b] by simp
  finally have d: "drop ?k b = ?lo # ?hi # drop (?k + 2) b" using b0 b1 by simp
  have "take (2 * length (c # cs)) (drop ?k b) =
      ?lo # ?hi # take (2 * length cs) (drop (?k + 2) b)"
    unfolding d by simp
  also have "\<dots> = map of_nat (le_bytes (map unat (c # cs)))"
    unfolding ih(4) by (simp add: le_bytes_def)
  finally have bytes: "take (2 * length (c # cs)) (drop ?k b) =
      map of_nat (le_bytes (map unat (c # cs)))" .
  have "store_units m i (c # cs) = store_units m1 (i + 1) cs" by (simp add: m1_def)
  with ih(1,2) t bytes show ?case by (simp add: b_def)
qed

lemma u16_store_after:
  assumes "2 * nat i + n \<le> 2 * nat j" "0 \<le> i" "0 \<le> j"
  shows "take n (drop (2 * nat i) (buffer (u16_store m j c))) = take n (drop (2 * nat i) (buffer m))"
proof (cases "views_fresh m \<and> j < int (length (buffer m) div 2)")
  case False
  with assms show ?thesis by (auto simp: u16_store_def)
next
  case True
  with assms(3) have "buffer (u16_store m j c) =
      (buffer m)[2 * nat j := of_nat (unat c mod 256), 2 * nat j + 1 := of_nat (unat c div 256)]"
    by (simp add: u16_store_def)
  moreover have "2 * nat i \<le> 2 * nat j" "2 * nat i \<le> 2 * nat j + 1"
    "n \<le> 2 * nat j - 2 * nat i" "n \<le> 2 * nat j + 1 - 2 * nat i"
    using assms(1) by simp_all
  ultimately show ?thesis by (simp add: drop_update_swap)
qed

lemma le_bytes_small: "\<forall>c\<in>set u. c < 65536 \<Longrightarrow> \<forall>b\<in>set (le_bytes u). b < 256"
  by (induction u) (auto simp: le_bytes_def less_mult_imp_div_less)

lemma dec_16_decode_units:
  "dec_16_decode (map of_nat (le_bytes (map unat (s :: 16 word list)))) =
     to_jsstring (strip_BOM (usv (map unat s)))"
proof -
  have "map unat (map of_nat (le_bytes (map unat s)) :: 8 word list) = le_bytes (map unat s)"
    by (rule map_unat_of_nat [OF le_bytes_small [OF units_16]])
  then show ?thesis by (simp add: dec_16_decode_def utf16le_decode_units)
qed

lemma dec_16_decode_roundtrip:
  assumes "well_formed (map unat s)" "s \<noteq> []" "hd s \<noteq> 0xFEFF"
  shows "dec_16_decode (map of_nat (le_bytes (map unat s))) = s"
  by (simp add: dec_16_decode_units usv_no_BOM [OF assms(1) hd_map_unat [OF assms(2,3)]]
      to_jsstring_usv [OF assms(1)])

section \<open>String round trip and allocation failure\<close>

text \<open>
  A host, a memory of 16 bytes and four guests for the examples: one whose allocator
  always answers 4, one whose allocator answers the null pointer, one without an
  allocator, and one whose allocator answers 4 after it has grown the memory by 16
  bytes, which leaves the views of the bridge detached.
\<close>

definition plain_host :: host where
  "plain_host = \<lparr>StringToNumber = (\<lambda>_. NaN), ObjectToNumber = (\<lambda>_. Inr NaN),
     instanceof = (\<lambda>_ _. Inr False), ToString = (\<lambda>_. Inl TypeError),
     HasProperty = (\<lambda>_ _. Inr False), GetProperty = (\<lambda>_ _. Inr JUndefined),
     array_elements = (\<lambda>_. None)\<rparr>"

definition memory_16 :: wasm_memory where
  "memory_16 = \<lparr>buffer = [0, 0, 0, 0, 0, 0, 0, 0, 0, 0, 0, 0, 0, 0, 0, 0], views_fresh = True\<rparr>"

definition exports_at_4 :: exports where
  "exports_at_4 = \<lparr>emlite_target = Some (Inr (JNumber (Fin 1037))),
     emlite_malloc = Some (\<lambda>m n. Inr (4, m))\<rparr>"

definition exports_null :: exports where
  "exports_null = \<lparr>emlite_target = Some (Inr (JNumber (Fin 1037))),
     emlite_malloc = Some (\<lambda>m n. Inr (0, m))\<rparr>"

definition exports_without_malloc :: exports where
  "exports_without_malloc = \<lparr>emlite_target = Some (Inr (JNumber (Fin 1037))),
     emlite_malloc = None\<rparr>"

definition exports_growing :: exports where
  "exports_growing = \<lparr>emlite_target = Some (Inr (JNumber (Fin 1037))),
     emlite_malloc = Some (\<lambda>m n. Inr (4, \<lparr>buffer = buffer m @ replicate 16 0,
                                              views_fresh = False\<rparr>))\<rparr>"

lemma setExports_stores: "setExports X = Inr E \<Longrightarrow> E = Some X"
  by (auto simp: setExports_def thenE_def split: option.splits sum.splits)

lemma not_a_string_JString [simp]: "not_a_string H (JString s) = Inr (s = [])"
  by (simp add: not_a_string_def)

lemma copyStringToWasm_JString:
  assumes "s \<noteq> []" "emlite_malloc X = Some malloc"
    "malloc (ensureViewsFresh m) (int (length (enc_encode (s @ [0])))) = Inr (ptr, m1)"
  shows "copyStringToWasm H (Some X) m (JString s) =
     (if ptr = 0 then Inl (ErrorMsg ''malloc failed in copyStringToWasm'')
      else thenE (u8_set m1 (enc_encode (s @ [0])) ptr) (\<lambda>m'. Inr (ptr, m')))"
  using assms by (simp add: copyStringToWasm_def string_units_def thenE_def Let_def)

lemma copyStringToWasmUtf16_JString:
  assumes "s \<noteq> []" "emlite_malloc X = Some malloc"
    "malloc (ensureViewsFresh m) ((int (length s) + 1) * 2) = Inr (ptr, m1)"
  shows "copyStringToWasmUtf16 H (Some X) m (JString s) =
     (if ptr = 0 then Inl (ErrorMsg ''malloc failed in copyStringToWasmUtf16'')
      else if ptr mod 2 \<noteq> 0 then Inl (ErrorMsg ''UTF-16 string not properly aligned'')
      else Inr (ptr, u16_store (store_units m1 ((ptr mod 2 ^ 32) div 2) s)
                       ((ptr mod 2 ^ 32) div 2 + int (length s)) 0))"
  using assms by (simp add: copyStringToWasmUtf16_def string_units_def thenE_def Let_def)

lemma copyStringToWasm_trap:
  assumes "s \<noteq> []" "emlite_malloc X = Some malloc"
    "malloc (ensureViewsFresh m) (int (length (enc_encode (s @ [0])))) = Inl x"
  shows "copyStringToWasm H (Some X) m (JString s) = Inl x"
  using assms by (simp add: copyStringToWasm_def string_units_def thenE_def Let_def)

lemma narrow_roundtrip:
  assumes "s \<noteq> []" "well_formed (map unat s)" "hd s \<noteq> 0xFEFF" "emlite_malloc X = Some malloc"
    and "copyStringToWasm H (Some X) m (JString s) = Inr (ptr, m')"
  shows "cStr m' ptr (int (length (enc_encode s))) = s"
proof (cases "malloc (ensureViewsFresh m) (int (length (enc_encode (s @ [0]))))")
  case (Inl x)
  from copyStringToWasm_trap [OF assms(1,4) Inl, of H] assms(5) show ?thesis by simp
next
  case (Inr r)
  then obtain p m1 where
    a: "malloc (ensureViewsFresh m) (int (length (enc_encode (s @ [0])))) = Inr (p, m1)"
    by (cases r) simp
  from assms(5) copyStringToWasm_JString [OF assms(1,4) a, of H]
  have "u8_set m1 (enc_encode (s @ [0])) ptr = Inr m'"
    by (auto simp: thenE_def split: if_splits sum.splits)
  from u8_set_subarray [OF this, of "length (enc_encode s)"]
  have "subarray (buffer m') ptr (ptr + int (length (enc_encode s))) = enc_encode s"
    by (simp add: enc_encode_zero)
  then show ?thesis
    by (simp add: cStr_def ensureViewsFresh_def dec_decode_roundtrip [OF assms(2,1,3)])
qed

lemma narrow_returns:
  assumes "s \<noteq> []" "emlite_malloc X = Some malloc"
    and "malloc (ensureViewsFresh m) (int (length (enc_encode (s @ [0])))) = Inr (ptr, m1)"
    and "views_fresh m1" "0 < ptr" "ptr + int (length (enc_encode (s @ [0]))) \<le> int (length (buffer m1))"
  shows "\<exists>m'. copyStringToWasm H (Some X) m (JString s) = Inr (ptr, m')"
  using assms(4-6) unfolding copyStringToWasm_JString [OF assms(1-3)]
  by (simp add: u8_set_def thenE_def)

lemma wide_roundtrip:
  assumes "s \<noteq> []" "well_formed (map unat s)" "hd s \<noteq> 0xFEFF" "emlite_malloc X = Some malloc"
    and a: "malloc (ensureViewsFresh m) ((int (length s) + 1) * 2) = Inr (ptr, m1)"
    and f: "views_fresh m1" and p: "0 < ptr" "ptr < 2 ^ 32" "ptr mod 2 = 0"
    and r: "ptr + 2 * int (length s) \<le> int (length (buffer m1))"
  shows "\<exists>m'. copyStringToWasmUtf16 H (Some X) m (JString s) = Inr (ptr, m') \<and>
           cStrUtf16 m' ptr (int (length s)) = s"
proof -
  define i where "i = (ptr mod 2 ^ 32) div 2"
  define m2 where "m2 = store_units m1 i s"
  define m' where "m' = u16_store m2 (i + int (length s)) 0"
  have "ptr mod 2 ^ 32 = ptr" using p(1,2) by simp
  then have i3: "ptr = 2 * i" using p(3) mult_div_mod_eq [of 2 ptr] by (simp add: i_def)
  with p(1) have i1: "0 \<le> i" by linarith
  have i2: "2 * nat i = nat ptr" unfolding i3 using i1 by (simp add: nat_mult_distrib)
  note i = i1 i2 i3
  have c: "copyStringToWasmUtf16 H (Some X) m (JString s) = Inr (ptr, m')"
    using p unfolding copyStringToWasmUtf16_JString [OF assms(1,4) a]
    by (simp add: m'_def m2_def i_def)
  have "2 * (nat i + length s) \<le> length (buffer m1)" using r i p by simp
  from store_units_buffer [OF f i(1) this]
  have s2: "length (buffer m2) = length (buffer m1)"
    "take (2 * length s) (drop (2 * nat i) (buffer m2)) = map of_nat (le_bytes (map unat s))"
    by (simp_all add: m2_def)
  have j: "0 \<le> i + int (length s)" "2 * nat i + 2 * length s \<le> 2 * nat (i + int (length s))"
    using i(1) by (simp_all add: nat_add_distrib)
  have l': "length (buffer m') = length (buffer m2)"
    by (simp add: m'_def u16_store_def)
  have "take (2 * length s) (drop (2 * nat i) (buffer m')) =
      take (2 * length s) (drop (2 * nat i) (buffer m2))"
    unfolding m'_def by (rule u16_store_after [OF j(2) i(1) j(1)])
  with s2(2) have bytes: "take (2 * length s) (drop (nat ptr) (buffer m')) =
      map of_nat (le_bytes (map unat s))" by (simp add: i(2))
  have "ptr + int (2 * length s) \<le> int (length (buffer m'))" using r l' s2(1) by simp
  with subarray_exact [of ptr "2 * length s" "buffer m'"] p(1) bytes
  have "subarray (buffer m') ptr (ptr + int (2 * length s)) = map of_nat (le_bytes (map unat s))"
    by simp
  then have "cStrUtf16 m' ptr (int (length s)) = s"
    by (simp add: cStrUtf16_def ensureViewsFresh_def mult.commute
        dec_16_decode_roundtrip [OF assms(2,1,3)])
  with c show ?thesis by blast
qed

lemma empty_string_roundtrip:
  "copyStringToWasm H E m (JString []) = Inr (0, m)"
  "copyStringToWasmUtf16 H E m (JString []) = Inr (0, m)"
  "cStr m 0 0 = []" "cStrUtf16 m 0 0 = []"
  by (simp_all add: copyStringToWasm_def copyStringToWasmUtf16_def cStr_def cStrUtf16_def
      subarray_def relative_index_def dec_decode_def dec_16_decode_def utf8_decode.simps
      utf16le_decode.simps utf8_initial_def strip_BOM_def to_jsstring_def enc_encode_def
      thenE_def)

lemma enc_encode_Nil: "enc_encode [] = []"
  by (simp add: enc_encode_def)

text \<open>
  C8. Let \<open>s\<close> be a string in which every surrogate is paired and which does not
  begin with U+FEFF, and let \<open>setExports\<close> have stored the exports of a guest that
  exports \<open>emlite_malloc\<close>. Whenever \<open>copyStringToWasm(s)\<close> returns a pointer,
  \<open>cStr\<close> of that pointer and the length of the UTF-8 encoding of \<open>s\<close> is \<open>s\<close>; for
  a non-empty \<open>s\<close> it does return the pointer that \<open>emlite_malloc\<close> returns when that
  pointer is positive, the bytes of \<open>s\<close> and the terminator fit into the memory there,
  and the views of the bridge are views of the current buffer when \<open>emlite_malloc\<close>
  returns (it has not grown the memory, or the views were made anew). When \<open>s\<close> is
  not empty, \<open>emlite_malloc\<close> returns a positive even pointer below \<open>2^32\<close>, the code
  units of \<open>s\<close> fit into the memory there, and the views of the bridge are views of the
  current buffer when \<open>emlite_malloc\<close> returns, \<open>copyStringToWasmUtf16(s)\<close> returns
  that pointer and \<open>cStrUtf16\<close> of it and \<open>s.length\<close> is \<open>s\<close>, code unit for code
  unit. The empty string is not written: both return the pointer 0, and reading no
  code units there gives the empty string.
\<close>

theorem string_roundtrip:
  assumes "well_formed (map unat s)" "s = [] \<or> hd s \<noteq> 0xFEFF"
    "setExports X = Inr E" "emlite_malloc X = Some malloc"
  shows "(\<forall>ptr m'. copyStringToWasm H E m (JString s) = Inr (ptr, m') \<longrightarrow>
            cStr m' ptr (int (length (enc_encode s))) = s) \<and>
         (s = [] \<longrightarrow> copyStringToWasmUtf16 H E m (JString s) = Inr (0, m) \<and>
            cStrUtf16 m 0 (int (length s)) = s) \<and>
         (\<forall>ptr m1. s \<noteq> [] \<and>
            malloc (ensureViewsFresh m) (int (length (enc_encode (s @ [0])))) = Inr (ptr, m1) \<and>
            views_fresh m1 \<and> 0 < ptr \<and>
            ptr + int (length (enc_encode (s @ [0]))) \<le> int (length (buffer m1)) \<longrightarrow>
            (\<exists>m'. copyStringToWasm H E m (JString s) = Inr (ptr, m'))) \<and>
         (\<forall>ptr m1. s \<noteq> [] \<and>
            malloc (ensureViewsFresh m) ((int (length s) + 1) * 2) = Inr (ptr, m1) \<and>
            views_fresh m1 \<and> 0 < ptr \<and> ptr < 2 ^ 32 \<and> ptr mod 2 = 0 \<and>
            ptr + 2 * int (length s) \<le> int (length (buffer m1)) \<longrightarrow>
            (\<exists>m'. copyStringToWasmUtf16 H E m (JString s) = Inr (ptr, m') \<and>
                  cStrUtf16 m' ptr (int (length s)) = s))"
proof (intro conjI allI impI)
  note E = setExports_stores [OF assms(3)]
  {
    fix ptr m' assume c: "copyStringToWasm H E m (JString s) = Inr (ptr, m')"
    show "cStr m' ptr (int (length (enc_encode s))) = s"
    proof (cases "s = []")
      case True
      with c show ?thesis by (simp add: empty_string_roundtrip enc_encode_Nil)
    next
      case False
      with assms(2) have "hd s \<noteq> 0xFEFF" by simp
      from narrow_roundtrip [OF False assms(1) this assms(4) c [unfolded E]] show ?thesis .
    qed
  next
    assume "s = []"
    then show "copyStringToWasmUtf16 H E m (JString s) = Inr (0, m)"
      by (simp add: empty_string_roundtrip)
  next
    assume "s = []"
    then show "cStrUtf16 m 0 (int (length s)) = s"
      by (simp add: empty_string_roundtrip)
  next
    fix ptr m1
    assume "s \<noteq> [] \<and>
        malloc (ensureViewsFresh m) (int (length (enc_encode (s @ [0])))) = Inr (ptr, m1) \<and>
        views_fresh m1 \<and> 0 < ptr \<and>
        ptr + int (length (enc_encode (s @ [0]))) \<le> int (length (buffer m1))"
    then have "s \<noteq> []"
      "malloc (ensureViewsFresh m) (int (length (enc_encode (s @ [0])))) = Inr (ptr, m1)"
      "views_fresh m1" "0 < ptr"
      "ptr + int (length (enc_encode (s @ [0]))) \<le> int (length (buffer m1))" by simp_all
    from narrow_returns [OF this(1) assms(4) this(2-5)]
    show "\<exists>m'. copyStringToWasm H E m (JString s) = Inr (ptr, m')" unfolding E .
  next
    fix ptr m1
    assume "s \<noteq> [] \<and> malloc (ensureViewsFresh m) ((int (length s) + 1) * 2) = Inr (ptr, m1) \<and>
        views_fresh m1 \<and> 0 < ptr \<and> ptr < 2 ^ 32 \<and> ptr mod 2 = 0 \<and>
        ptr + 2 * int (length s) \<le> int (length (buffer m1))"
    then have h: "s \<noteq> []" "malloc (ensureViewsFresh m) ((int (length s) + 1) * 2) = Inr (ptr, m1)"
      "views_fresh m1" "0 < ptr" "ptr < 2 ^ 32" "ptr mod 2 = 0"
      "ptr + 2 * int (length s) \<le> int (length (buffer m1))" by simp_all
    with assms(2) have "hd s \<noteq> 0xFEFF" by simp
    from wide_roundtrip [OF h(1) assms(1) this assms(4) h(2-7)]
    show "\<exists>m'. copyStringToWasmUtf16 H E m (JString s) = Inr (ptr, m') \<and>
        cStrUtf16 m' ptr (int (length s)) = s" unfolding E .
  }
qed

lemma not_surrogate_ascii: "c < 0xD800 \<Longrightarrow> \<not> is_surrogate c \<and> \<not> is_lead c \<and> \<not> is_trail c"
  by (simp add: is_surrogate_def is_lead_def is_trail_def)

lemma enc_encode_hi: "enc_encode [0x68, 0x69] = [0x68, 0x69]" "enc_encode [0x68, 0x69, 0] = [0x68, 0x69, 0]"
  by (simp_all add: enc_encode_def utf8_bytes_def not_surrogate_ascii)

lemma setExports_examples:
  "setExports exports_at_4 = Inr (Some exports_at_4)"
  "setExports exports_null = Inr (Some exports_null)"
  "setExports exports_without_malloc = Inr (Some exports_without_malloc)"
  "setExports exports_growing = Inr (Some exports_growing)"
  by (simp_all add: setExports_def thenE_def exports_at_4_def exports_null_def
      exports_without_malloc_def exports_growing_def)

theorem string_roundtrip_witness:
  "well_formed (map unat [0x68, 0x69 :: 16 word]) \<and>
   ([0x68, 0x69 :: 16 word] = [] \<or> hd [0x68, 0x69 :: 16 word] \<noteq> 0xFEFF) \<and>
   setExports exports_at_4 = Inr (Some exports_at_4) \<and>
   emlite_malloc exports_at_4 = Some (\<lambda>m n. Inr (4, m)) \<and>
   (\<exists>m'. copyStringToWasm plain_host (Some exports_at_4) memory_16 (JString [0x68, 0x69]) =
            Inr (4, m') \<and>
         cStr m' 4 2 = [0x68, 0x69]) \<and>
   (\<exists>m'. copyStringToWasmUtf16 plain_host (Some exports_at_4) memory_16 (JString [0x68, 0x69]) =
            Inr (4, m') \<and>
         cStrUtf16 m' 4 2 = [0x68, 0x69])"
proof -
  let ?s = "[0x68, 0x69 :: 16 word]"
  let ?E = "Some exports_at_4"
  have a: "well_formed (map unat ?s)" "?s = [] \<or> hd ?s \<noteq> 0xFEFF"
    "setExports exports_at_4 = Inr ?E"
    "emlite_malloc exports_at_4 = Some (\<lambda>m n. Inr (4, m))"
    by (simp_all add: not_surrogate_ascii setExports_examples) (simp add: exports_at_4_def)
  note t = string_roundtrip [OF a, of plain_host memory_16]
  have f: "ensureViewsFresh memory_16 = memory_16"
    by (simp add: ensureViewsFresh_def memory_16_def)
  have "\<exists>m'. copyStringToWasm plain_host ?E memory_16 (JString ?s) = Inr (4, m')"
    using t by (simp add: f enc_encode_hi) (simp add: memory_16_def)
  then obtain m' where n: "copyStringToWasm plain_host ?E memory_16 (JString ?s) = Inr (4, m')"
    by blast
  with t have "cStr m' 4 (int (length (enc_encode ?s))) = ?s" by blast
  then have n': "cStr m' 4 2 = ?s" by (simp add: enc_encode_hi)
  have w: "\<exists>m'. copyStringToWasmUtf16 plain_host ?E memory_16 (JString ?s) = Inr (4, m') \<and>
         cStrUtf16 m' 4 2 = ?s"
    using t by (simp add: f) (simp add: memory_16_def)
  from a n n' w show ?thesis by blast
qed

lemma BOM_not_surrogate: "\<not> is_surrogate 0xFEFF \<and> \<not> is_lead 0xFEFF \<and> \<not> is_surrogate 0x61 \<and> \<not> is_lead 0x61"
  by (simp add: is_surrogate_def is_lead_def)

lemma enc_encode_BOM_a: "enc_encode [0xFEFF, 0x61, 0] = [0xEF, 0xBB, 0xBF, 0x61, 0]"
  by (simp add: enc_encode_def utf8_bytes_def BOM_not_surrogate not_trail_0)

lemma utf8_decode_BOM_a: "utf8_decode utf8_initial [0xEF, 0xBB, 0xBF, 0x61] = [0xFEFF, 0x61]"
  by (simp add: utf8_decode.simps utf8_initial_def)

lemma utf16le_decode_lone: "utf16le_decode None None [0x00, 0xD8, 0x61, 0x00] = [0xFFFD, 0x61]"
  by (simp add: utf16le_decode.simps is_lead_def is_trail_def)

lemma utf16le_decode_zero: "utf16le_decode None None [0x00, 0x00] = [0]"
  by (simp add: utf16le_decode.simps is_lead_def is_trail_def)

text \<open>
  The round trip fails for a string that begins with U+FEFF (the decoder drops it), for
  a string with an unpaired surrogate (the decoder answers U+FFFD), and through the
  wide path when the allocator has grown the memory: the views were made fresh before
  the allocation and are detached after it, the stores through them do nothing, and the
  pointer that comes back leads to bytes that were never written.
\<close>

theorem string_roundtrip_counterexample:
  "copyStringToWasm plain_host (Some exports_at_4) memory_16 (JString [0xFEFF, 0x61]) =
     Inr (4, \<lparr>buffer = [0, 0, 0, 0, 0xEF, 0xBB, 0xBF, 0x61, 0, 0, 0, 0, 0, 0, 0, 0],
              views_fresh = True\<rparr>) \<and>
   cStr \<lparr>buffer = [0, 0, 0, 0, 0xEF, 0xBB, 0xBF, 0x61, 0, 0, 0, 0, 0, 0, 0, 0],
         views_fresh = True\<rparr> 4 4 = [0x61] \<and>
   copyStringToWasmUtf16 plain_host (Some exports_at_4) memory_16 (JString [0xD800, 0x61]) =
     Inr (4, \<lparr>buffer = [0, 0, 0, 0, 0x00, 0xD8, 0x61, 0x00, 0, 0, 0, 0, 0, 0, 0, 0],
              views_fresh = True\<rparr>) \<and>
   cStrUtf16 \<lparr>buffer = [0, 0, 0, 0, 0x00, 0xD8, 0x61, 0x00, 0, 0, 0, 0, 0, 0, 0, 0],
              views_fresh = True\<rparr> 4 2 = [0xFFFD, 0x61] \<and>
   copyStringToWasmUtf16 plain_host (Some exports_growing) memory_16 (JString [0x61]) =
     Inr (4, \<lparr>buffer = [0, 0, 0, 0, 0, 0, 0, 0, 0, 0, 0, 0, 0, 0, 0, 0,
                         0, 0, 0, 0, 0, 0, 0, 0, 0, 0, 0, 0, 0, 0, 0, 0],
              views_fresh = False\<rparr>) \<and>
   cStrUtf16 \<lparr>buffer = [0, 0, 0, 0, 0, 0, 0, 0, 0, 0, 0, 0, 0, 0, 0, 0,
                        0, 0, 0, 0, 0, 0, 0, 0, 0, 0, 0, 0, 0, 0, 0, 0],
              views_fresh = False\<rparr> 4 1 = [0]"
proof (intro conjI)
  show "copyStringToWasm plain_host (Some exports_at_4) memory_16 (JString [0xFEFF, 0x61]) =
     Inr (4, \<lparr>buffer = [0, 0, 0, 0, 0xEF, 0xBB, 0xBF, 0x61, 0, 0, 0, 0, 0, 0, 0, 0],
              views_fresh = True\<rparr>)"
    by (simp add: copyStringToWasm_def string_units_def thenE_def exports_at_4_def memory_16_def
        ensureViewsFresh_def enc_encode_BOM_a u8_set_def)
  show "cStr \<lparr>buffer = [0, 0, 0, 0, 0xEF, 0xBB, 0xBF, 0x61, 0, 0, 0, 0, 0, 0, 0, 0],
         views_fresh = True\<rparr> 4 4 = [0x61]"
    by (simp add: cStr_def ensureViewsFresh_def subarray_def relative_index_def dec_decode_def
        utf8_decode_BOM_a strip_BOM_def to_jsstring_def code_units_def)
  show "copyStringToWasmUtf16 plain_host (Some exports_at_4) memory_16 (JString [0xD800, 0x61]) =
     Inr (4, \<lparr>buffer = [0, 0, 0, 0, 0x00, 0xD8, 0x61, 0x00, 0, 0, 0, 0, 0, 0, 0, 0],
              views_fresh = True\<rparr>)"
    by (simp add: copyStringToWasmUtf16_def string_units_def thenE_def exports_at_4_def memory_16_def
        ensureViewsFresh_def u16_store_def)
  show "cStrUtf16 \<lparr>buffer = [0, 0, 0, 0, 0x00, 0xD8, 0x61, 0x00, 0, 0, 0, 0, 0, 0, 0, 0],
              views_fresh = True\<rparr> 4 2 = [0xFFFD, 0x61]"
    by (simp add: cStrUtf16_def ensureViewsFresh_def subarray_def relative_index_def
        dec_16_decode_def utf16le_decode_lone strip_BOM_def to_jsstring_def code_units_def)
  show "copyStringToWasmUtf16 plain_host (Some exports_growing) memory_16 (JString [0x61]) =
     Inr (4, \<lparr>buffer = [0, 0, 0, 0, 0, 0, 0, 0, 0, 0, 0, 0, 0, 0, 0, 0,
                         0, 0, 0, 0, 0, 0, 0, 0, 0, 0, 0, 0, 0, 0, 0, 0],
              views_fresh = False\<rparr>)"
    by (simp add: copyStringToWasmUtf16_def string_units_def thenE_def exports_growing_def
        memory_16_def ensureViewsFresh_def u16_store_def numeral_eq_Suc)
  show "cStrUtf16 \<lparr>buffer = [0, 0, 0, 0, 0, 0, 0, 0, 0, 0, 0, 0, 0, 0, 0, 0,
                        0, 0, 0, 0, 0, 0, 0, 0, 0, 0, 0, 0, 0, 0, 0, 0],
              views_fresh = False\<rparr> 4 1 = [0]"
    by (simp add: cStrUtf16_def ensureViewsFresh_def subarray_def relative_index_def
        dec_16_decode_def utf16le_decode_zero strip_BOM_def to_jsstring_def code_units_def)
qed

lemma typeof_not_empty: "js (typeof v) \<noteq> []"
  by (cases v) (simp_all add: js_def)

text \<open>
  C7. For a non-empty string, once \<open>setExports\<close> has stored the exports of the guest:
  when the guest exports \<open>emlite_malloc\<close> and it returns the null pointer,
  \<open>copyStringToWasm\<close> and \<open>copyStringToWasmUtf16\<close> throw their \<open>malloc failed\<close>
  error; when the guest does not export \<open>emlite_malloc\<close>, both return the null
  pointer 0 without an error and without writing, and so does \<open>emlite_val_typeof\<close>.
  Before \<open>setExports\<close>, while \<open>this.exports\<close> is \<open>undefined\<close>, all three throw
  the TypeError of reading \<open>this.exports.emlite_malloc\<close>.
\<close>

theorem allocation_failure:
  assumes "s \<noteq> []" "setExports X = Inr E"
  shows "(emlite_malloc X = None \<longrightarrow>
            copyStringToWasm H E m (JString s) = Inr (0, ensureViewsFresh m) \<and>
            copyStringToWasmUtf16 H E m (JString s) = Inr (0, ensureViewsFresh m) \<and>
            emlite_val_typeof H E t m n = Inr (0, ensureViewsFresh m)) \<and>
         (\<forall>malloc m1. emlite_malloc X = Some malloc \<and>
            malloc (ensureViewsFresh m) (int (length (enc_encode (s @ [0])))) = Inr (0, m1) \<longrightarrow>
            copyStringToWasm H E m (JString s) = Inl (ErrorMsg ''malloc failed in copyStringToWasm'')) \<and>
         (\<forall>malloc m1. emlite_malloc X = Some malloc \<and>
            malloc (ensureViewsFresh m) ((int (length s) + 1) * 2) = Inr (0, m1) \<longrightarrow>
            copyStringToWasmUtf16 H E m (JString s) =
              Inl (ErrorMsg ''malloc failed in copyStringToWasmUtf16'')) \<and>
         copyStringToWasm H None m (JString s) = Inl TypeError \<and>
         copyStringToWasmUtf16 H None m (JString s) = Inl TypeError \<and>
         emlite_val_typeof H None t m n = Inl TypeError"
  using assms(1) typeof_not_empty [of "get t n"] unfolding setExports_stores [OF assms(2)]
  by (auto simp: copyStringToWasm_def copyStringToWasmUtf16_def emlite_val_typeof_def
      string_units_def thenE_def Let_def)

theorem allocation_failure_witness:
  "[0x61 :: 16 word] \<noteq> [] \<and>
   setExports exports_without_malloc = Inr (Some exports_without_malloc) \<and>
   setExports exports_null = Inr (Some exports_null) \<and>
   copyStringToWasm plain_host (Some exports_without_malloc) memory_16 (JString [0x61]) =
     Inr (0, memory_16) \<and>
   copyStringToWasm plain_host (Some exports_null) memory_16 (JString [0x61]) =
     Inl (ErrorMsg ''malloc failed in copyStringToWasm'') \<and>
   copyStringToWasmUtf16 plain_host (Some exports_null) memory_16 (JString [0x61]) =
     Inl (ErrorMsg ''malloc failed in copyStringToWasmUtf16'') \<and>
   copyStringToWasm plain_host None memory_16 (JString [0x61]) = Inl TypeError"
proof -
  have a: "[0x61 :: 16 word] \<noteq> []" by simp
  have f: "ensureViewsFresh memory_16 = memory_16"
    by (simp add: ensureViewsFresh_def memory_16_def)
  note e = setExports_examples(3) setExports_examples(2)
  from allocation_failure [OF a e(1), of plain_host memory_16]
  have 1: "copyStringToWasm plain_host (Some exports_without_malloc) memory_16 (JString [0x61]) =
      Inr (0, memory_16)"
    "copyStringToWasm plain_host None memory_16 (JString [0x61]) = Inl TypeError"
    by (simp_all add: exports_without_malloc_def f)
  from allocation_failure [OF a e(2), of plain_host memory_16]
  have 2: "copyStringToWasm plain_host (Some exports_null) memory_16 (JString [0x61]) =
     Inl (ErrorMsg ''malloc failed in copyStringToWasm'')"
    "copyStringToWasmUtf16 plain_host (Some exports_null) memory_16 (JString [0x61]) =
     Inl (ErrorMsg ''malloc failed in copyStringToWasmUtf16'')"
    by (simp_all add: exports_null_def)
  from a e 1 2 show ?thesis by simp
qed

text \<open>
  A guest without \<open>emlite_malloc\<close>: after \<open>setExports\<close> the three operations return
  the pointer 0 and raise nothing.
\<close>

theorem allocation_failure_counterexample:
  "setExports exports_without_malloc = Inr (Some exports_without_malloc) \<and>
   emlite_malloc exports_without_malloc = None \<and>
   copyStringToWasm plain_host (Some exports_without_malloc) memory_16 (JString [0x61]) =
     Inr (0, memory_16) \<and>
   copyStringToWasmUtf16 plain_host (Some exports_without_malloc) memory_16 (JString [0x61]) =
     Inr (0, memory_16) \<and>
   emlite_val_typeof plain_host (Some exports_without_malloc) EMLITE_VALMAP0 memory_16 1 =
     Inr (0, memory_16)"
  by (simp add: copyStringToWasm_def copyStringToWasmUtf16_def emlite_val_typeof_def
      exports_without_malloc_def ensureViewsFresh_def memory_16_def get_def EMLITE_VALMAP0_def
      js_def setExports_def thenE_def)

section \<open>Invocation\<close>

text \<open>
  The \<open>Error\<close> objects that the bridge makes. \<open>new Error(msg)\<close> has the own property
  \<open>message\<close>; \<open>name\<close>, \<open>code\<close> and \<open>cause\<close> are own properties once they are
  assigned. The heap maps the reference of such an object to its properties;
  \<open>next_ref\<close> is the reference of the next object.
\<close>

record error_object =
  err_message :: jsstring
  err_name :: "jsval option"
  err_code :: "jsval option"
  err_cause :: "jsval option"

record js_heap =
  errors :: "(nat \<times> error_object) list"
  next_ref :: nat






text \<open>
  What the bridge works on, and the dispatch of the host: \<open>Reflect.apply\<close> of a method
  or of a function, \<open>Reflect.construct\<close>. A dispatch returns a value or throws one
  (\<open>Inl\<close>), and since the callee can call back into the bridge, it returns the bridge's
  state too. The table is the global \<open>EMLITE_VALMAP\<close>, and \<open>normalizeThrown\<close> the
  global function, that \<open>emlite_init_handle_table\<close> installs; the callee leaves both
  globals in place.
\<close>

record bridge =
  table :: HandleTable
  heap :: js_heap
  memory :: wasm_memory

datatype dispatch =
    ApplyMethod jsval jsstring "jsval list"
  | Construct jsval "jsval list"
  | Apply jsval "jsval list"

type_synonym dispatcher = "dispatch \<Rightarrow> bridge \<Rightarrow> (jsval + jsval) \<times> bridge"







text \<open>
  The copy of version 1024 has no \<open>try\<close>: \<open>return HANDLE_MAP.add(dispatch)\<close>, and a
  throw of the dispatch leaves the operation.
\<close>

definition dispatch_and_add_1024 :: "dispatcher \<Rightarrow> bridge \<Rightarrow> dispatch \<Rightarrow> js_exn + (int \<times> bridge)" where
  "dispatch_and_add_1024 D b c =
     (let (outcome, b) = D c b
      in case outcome of
           Inl e \<Rightarrow> Inl (Thrown e)
         | Inr v \<Rightarrow> thenE (add (table b) v) (\<lambda>(h, t). Inr (h, b\<lparr>table := t\<rparr>)))"




















lemma dispatch_and_add_1024_thrown:
  "D c b0 = (Inl e, b1) \<Longrightarrow> dispatch_and_add_1024 D b0 c = Inl (Thrown e)"
  by (simp add: dispatch_and_add_1024_def)









end
